theory Spec2Isabelle
  imports Main "HOL-Library.Word"
begin

unbundle bit_operations_syntax

section \<open>JavaScript numbers\<close>

text \<open>
  The addressing engine (\<^verbatim>\<open>src/utils/ip-utils.ts\<close>) computes on JavaScript numbers.
  Every number the engine produces from a valid address and an integer prefix length is
  an integer of magnitude below \<open>2^53\<close>, where double arithmetic is exact, so a number
  is modelled as an \<open>int\<close> and \<open>NaN\<close> (which only \<open>parseInt\<close> can produce) as
  \<open>None\<close>. The 32-bit operators are written out as ECMAScript defines them:
  \<open>ToInt32\<close> and \<open>ToUint32\<close> reduce modulo \<open>2^32\<close>, and a shift uses only the low
  five bits of its count.
\<close>

definition toUint32 :: "int \<Rightarrow> int" where
  "toUint32 x = x mod 2 ^ 32"

definition toInt32 :: "int \<Rightarrow> int" where
  "toInt32 x = (if x mod 2 ^ 32 < 2 ^ 31 then x mod 2 ^ 32 else x mod 2 ^ 32 - 2 ^ 32)"

text \<open>\<^verbatim>\<open>a << b\<close>: the count is \<open>ToUint32 b\<close> modulo 32, the result is an int32.\<close>

definition js_shl :: "int \<Rightarrow> int \<Rightarrow> int" where
  "js_shl a b = toInt32 (toInt32 a * 2 ^ nat (toUint32 b mod 32))"

text \<open>\<^verbatim>\<open>a >>> b\<close>: zero-filling shift of \<open>ToUint32 a\<close>, the result is a uint32.\<close>

definition js_ushr :: "int \<Rightarrow> int \<Rightarrow> int" where
  "js_ushr a b = toUint32 a div 2 ^ nat (toUint32 b mod 32)"

text \<open>\<^verbatim>\<open>a & b\<close>, \<^verbatim>\<open>a | b\<close>, \<^verbatim>\<open>~a\<close>: on int32 operands, the result is an int32.\<close>

definition js_and :: "int \<Rightarrow> int \<Rightarrow> int" where
  "js_and a b = toInt32 a AND toInt32 b"

definition js_or :: "int \<Rightarrow> int \<Rightarrow> int" where
  "js_or a b = toInt32 a OR toInt32 b"

definition js_not :: "int \<Rightarrow> int" where
  "js_not a = NOT (toInt32 a)"

text \<open>
  \<^verbatim>\<open>Math.pow(2, e)\<close> for an integer exponent. The engine only calls it with
  \<open>e \<ge> 0\<close> as long as \<open>cidr \<le> 32\<close>; a negative exponent would give a fraction, which
  is outside this model.
\<close>

definition js_pow2 :: "int \<Rightarrow> int" where
  "js_pow2 e = 2 ^ nat e"

section \<open>JavaScript strings\<close>

text \<open>
  Strings are lists of characters. Decimal digits are the characters \<open>0\<close> to \<open>9\<close>.
\<close>

definition isDigit :: "char \<Rightarrow> bool" where
  "isDigit c = (48 \<le> (of_char c :: nat) \<and> (of_char c :: nat) \<le> 57)"

definition digitVal :: "char \<Rightarrow> nat" where
  "digitVal c = of_char c - 48"

definition digitChar :: "nat \<Rightarrow> char" where
  "digitChar d = char_of (48 + d)"

text \<open>
  The white space that \<open>parseInt\<close> skips: tab, line feed, vertical tab, form feed,
  carriage return and space.
\<close>

definition isWhiteSpace :: "char \<Rightarrow> bool" where
  "isWhiteSpace c = ((of_char c :: nat) \<in> {9, 10, 11, 12, 13, 32})"

text \<open>\<^verbatim>\<open>s.split('.')\<close>: the parts between the dots; never the empty list.\<close>

fun split_dot :: "string \<Rightarrow> string list" where
  "split_dot [] = [[]]"
| "split_dot (c # cs) =
     (if c = CHR ''.'' then [] # split_dot cs
      else (c # hd (split_dot cs)) # tl (split_dot cs))"

text \<open>\<^verbatim>\<open>parts.join('.')\<close>.\<close>

fun join_dot :: "string list \<Rightarrow> string" where
  "join_dot [] = []"
| "join_dot [p] = p"
| "join_dot (p # q # ps) = p @ CHR ''.'' # join_dot (q # ps)"

text \<open>
  \<^verbatim>\<open>num.toString()\<close> and \<^verbatim>\<open>num.toString(2)\<close> of an integer: the digits of the
  magnitude, most significant first, after a minus sign when negative.
\<close>

fun natToString :: "nat \<Rightarrow> string" where
  "natToString n =
     (if n < 10 then [digitChar n] else natToString (n div 10) @ [digitChar (n mod 10)])"

declare natToString.simps [simp del]

definition numToString :: "int \<Rightarrow> string" where
  "numToString n = (if n < 0 then CHR ''-'' # natToString (nat (- n)) else natToString (nat n))"

fun natToBinary :: "nat \<Rightarrow> string" where
  "natToBinary n =
     (if n < 2 then [digitChar n] else natToBinary (n div 2) @ [digitChar (n mod 2)])"

declare natToBinary.simps [simp del]

definition padStart :: "nat \<Rightarrow> char \<Rightarrow> string \<Rightarrow> string" where
  "padStart n c s = replicate (n - length s) c @ s"

text \<open>
  \<^verbatim>\<open>parseInt(s, 10)\<close>: skip leading white space, read an optional sign, then the longest
  run of decimal digits; \<open>NaN\<close> when that run is empty. The value is exact here; a
  double rounds digit strings beyond \<open>2^53\<close>, which changes no comparison with 255.
\<close>

definition digitsValue :: "string \<Rightarrow> nat" where
  "digitsValue ds = foldl (\<lambda>acc c. 10 * acc + digitVal c) 0 ds"

definition parseInt :: "string \<Rightarrow> int option" where
  "parseInt s =
     (let s1 = dropWhile isWhiteSpace s;
          neg = (s1 \<noteq> [] \<and> hd s1 = CHR ''-'');
          s2 = (if s1 \<noteq> [] \<and> (hd s1 = CHR ''-'' \<or> hd s1 = CHR ''+'') then tl s1 else s1);
          ds = takeWhile isDigit s2
      in if ds = [] then None
         else Some (if neg then - int (digitsValue ds) else int (digitsValue ds)))"

section \<open>Address codec\<close>

text \<open>\<^verbatim>\<open>isValidIp\<close>: four parts, each the canonical decimal text of a number in 0..255.\<close>

definition validPart :: "string \<Rightarrow> bool" where
  "validPart part =
     (case parseInt part of
        None \<Rightarrow> False
      | Some num \<Rightarrow> num \<ge> 0 \<and> num \<le> 255 \<and> part = numToString num)"

definition isValidIp :: "string \<Rightarrow> bool" where
  "isValidIp ip =
     (let parts = split_dot ip
      in if length parts \<noteq> 4 then False else list_all validPart parts)"

text \<open>
  \<^verbatim>\<open>ipToLong\<close>: the reduction \<^verbatim>\<open>(acc << 8) + parseInt(octet, 10)\<close> from 0, then
  \<^verbatim>\<open>>>> 0\<close>. A \<open>NaN\<close> accumulator shifts as 0, and a sum with \<open>NaN\<close> is \<open>NaN\<close>.
\<close>

definition nanToZero :: "int option \<Rightarrow> int" where
  "nanToZero x = (case x of None \<Rightarrow> 0 | Some v \<Rightarrow> v)"

definition ipToLong_step :: "int option \<Rightarrow> string \<Rightarrow> int option" where
  "ipToLong_step acc octet =
     (case parseInt octet of
        None \<Rightarrow> None
      | Some v \<Rightarrow> Some (js_shl (nanToZero acc) 8 + v))"

definition ipToLong :: "string \<Rightarrow> int" where
  "ipToLong ip = js_ushr (nanToZero (foldl ipToLong_step (Some 0) (split_dot ip))) 0"

definition longToIp :: "int \<Rightarrow> string" where
  "longToIp long =
     join_dot (map numToString
       [js_and (js_ushr long 24) 255,
        js_and (js_ushr long 16) 255,
        js_and (js_ushr long 8) 255,
        js_and long 255])"

definition toBinaryString :: "int \<Rightarrow> string" where
  "toBinaryString num = padStart 32 (CHR ''0'') (natToBinary (nat (js_ushr num 0)))"

section \<open>Classifier\<close>

text \<open>
  \<^verbatim>\<open>getNetworkClass\<close>: the class letter and default prefix of a first octet. Every
  comparison with \<open>NaN\<close> is false, so \<open>NaN\<close> falls through to class E.
\<close>

definition getNetworkClass :: "int option \<Rightarrow> string \<times> int" where
  "getNetworkClass firstOctet =
     (case firstOctet of
        None \<Rightarrow> (''E'', 0)
      | Some v \<Rightarrow>
          if v \<ge> 0 \<and> v \<le> 127 then (''A'', 8)
          else if v \<ge> 128 \<and> v \<le> 191 then (''B'', 16)
          else if v \<ge> 192 \<and> v \<le> 223 then (''C'', 24)
          else if v \<ge> 224 \<and> v \<le> 239 then (''D'', 0)
          else (''E'', 0))"

datatype IpType = Private | Public | Loopback | LinkLocal | Multicast | Reserved | CGNAT | Unknown

record IpCategoryInfo =
  ipType :: IpType
  rangeName :: "string option"
  minCidr :: "int option"
  description :: "string option"
  isPrivate :: bool

record PrivateRange =
  range_start :: int
  range_end :: int
  range_name :: string
  range_minCidr :: int

definition PRIVATE_RANGES :: "PrivateRange list" where
  "PRIVATE_RANGES =
     [\<lparr>range_start = 167772160, range_end = 184549375,
        range_name = ''10.0.0.0/8'', range_minCidr = 8\<rparr>,
      \<lparr>range_start = 2886729728, range_end = 2887778303,
        range_name = ''172.16.0.0/12'', range_minCidr = 12\<rparr>,
      \<lparr>range_start = 3232235520, range_end = 3232301055,
        range_name = ''192.168.0.0/16'', range_minCidr = 16\<rparr>]"

text \<open>
  \<^verbatim>\<open>getIpCategory\<close>: the loop over \<open>PRIVATE_RANGES\<close> returns at the first range that
  holds the address, which is what \<open>find\<close> computes; the other categories follow in
  the order of the source.
\<close>

definition getIpCategory :: "string \<Rightarrow> IpCategoryInfo" where
  "getIpCategory ip =
     (if \<not> isValidIp ip then
        \<lparr>ipType = Unknown, rangeName = None, minCidr = None, description = None,
         isPrivate = False\<rparr>
      else
        let long = ipToLong ip in
        case find (\<lambda>r. long \<ge> range_start r \<and> long \<le> range_end r) PRIVATE_RANGES of
          Some r \<Rightarrow>
            \<lparr>ipType = Private, rangeName = Some (range_name r),
             minCidr = Some (range_minCidr r), description = Some ''RFC 1918 Private'',
             isPrivate = True\<rparr>
        | None \<Rightarrow>
            if long \<ge> 2130706432 \<and> long \<le> 2147483647 then
              \<lparr>ipType = Loopback, rangeName = None, minCidr = None,
               description = Some ''Loopback Address'', isPrivate = False\<rparr>
            else if long \<ge> 2851995648 \<and> long \<le> 2852061183 then
              \<lparr>ipType = LinkLocal, rangeName = None, minCidr = None,
               description = Some ''APIPA / Link-Local'', isPrivate = False\<rparr>
            else if long \<ge> 1681915904 \<and> long \<le> 1686110207 then
              \<lparr>ipType = CGNAT, rangeName = None, minCidr = None,
               description = Some ''Carrier-Grade NAT'', isPrivate = False\<rparr>
            else if long \<ge> 3758096384 \<and> long \<le> 4026531839 then
              \<lparr>ipType = Multicast, rangeName = None, minCidr = None,
               description = Some ''Multicast'', isPrivate = False\<rparr>
            else if long \<ge> 4026531840 \<and> long \<le> 4294967295 then
              \<lparr>ipType = Reserved, rangeName = None, minCidr = None,
               description = Some ''Reserved'', isPrivate = False\<rparr>
            else
              \<lparr>ipType = Public, rangeName = None, minCidr = None,
               description = Some ''Public Internet Address'', isPrivate = False\<rparr>)"

text \<open>\<^verbatim>\<open>checkPrivateOverlap\<close>: \<open>null\<close> is \<open>None\<close>.\<close>

definition checkPrivateOverlap :: "string \<Rightarrow> int \<Rightarrow> string option" where
  "checkPrivateOverlap ip cidr =
     (if \<not> isValidIp ip then None
      else
        let ipLong = ipToLong ip;
            maskLong = js_ushr (js_shl (- 1) (32 - cidr)) 0;
            networkStart = js_ushr (js_and ipLong maskLong) 0;
            networkEnd = js_ushr (js_or networkStart (js_not maskLong)) 0
        in map_option range_name
             (find (\<lambda>r. networkStart \<le> range_end r \<and> networkEnd \<ge> range_start r)
                PRIVATE_RANGES))"

section \<open>Subnet calculator\<close>

text \<open>
  The fields of \<^verbatim>\<open>SubnetDetails\<close>, in the order of the interface. The fields
  \<open>ip\<close>, \<open>cidr\<close> and \<open>baseCidr\<close> carry the suffix \<open>_field\<close>, since these names are
  the parameters of the functions below.
\<close>

record SubnetDetails =
  ip_field :: string
  cidr_field :: int
  subnetMask :: string
  networkAddress :: string
  broadcastAddress :: string
  firstHost :: string
  lastHost :: string
  hostsPerSubnet :: int
  hostBits :: int
  borrowedBits :: int
  subnetsCreated :: int
  networkClass :: string
  defaultCidr :: int
  baseCidr_field :: int
  binaryIp :: string
  binaryMask :: string
  binaryNet :: string
  isValid :: bool

text \<open>
  The local constants of \<^verbatim>\<open>calculateSubnet\<close>, each a definition of its own so that
  the theorems can name them. \<open>maskLong\<close> is the int32 \<^verbatim>\<open>-1 << (32 - cidr)\<close>.
\<close>

definition calc_maskLong :: "int \<Rightarrow> int" where
  "calc_maskLong cidr = js_shl (- 1) (32 - cidr)"

definition calc_networkLong :: "string \<Rightarrow> int \<Rightarrow> int" where
  "calc_networkLong ip cidr = js_ushr (js_and (ipToLong ip) (calc_maskLong cidr)) 0"

definition calc_broadcastLong :: "string \<Rightarrow> int \<Rightarrow> int" where
  "calc_broadcastLong ip cidr =
     js_ushr (js_or (calc_networkLong ip cidr) (js_not (calc_maskLong cidr))) 0"

text \<open>\<^verbatim>\<open>parseInt(ip.split('.')[0], 10)\<close>; the split has a first part.\<close>

definition calc_firstOctet :: "string \<Rightarrow> int option" where
  "calc_firstOctet ip = parseInt (hd (split_dot ip))"

text \<open>\<open>parentCidr\<close> is optional: \<open>undefined\<close> is \<open>None\<close>.\<close>

definition calc_baseCidr :: "string \<Rightarrow> int option \<Rightarrow> int" where
  "calc_baseCidr ip parentCidr =
     (case parentCidr of
        Some p \<Rightarrow> p
      | None \<Rightarrow> snd (getNetworkClass (calc_firstOctet ip)))"

definition calc_borrowedBits :: "int \<Rightarrow> int \<Rightarrow> int" where
  "calc_borrowedBits cidr baseCidr =
     (if baseCidr > 0 \<and> cidr \<ge> baseCidr then cidr - baseCidr else 0)"

definition calculateSubnet :: "string \<Rightarrow> int \<Rightarrow> int option \<Rightarrow> SubnetDetails" where
  "calculateSubnet ip cidr parentCidr =
     (if \<not> isValidIp ip then
        \<lparr>ip_field = ip, cidr_field = cidr, subnetMask = [], networkAddress = [],
         broadcastAddress = [], firstHost = [], lastHost = [], hostsPerSubnet = 0,
         hostBits = 0, borrowedBits = 0, subnetsCreated = 0, networkClass = ''-'',
         defaultCidr = 0, baseCidr_field = 0, binaryIp = [], binaryMask = [],
         binaryNet = [], isValid = False\<rparr>
      else
        let ipLong = ipToLong ip;
            maskLong = calc_maskLong cidr;
            networkLong = calc_networkLong ip cidr;
            broadcastLong = calc_broadcastLong ip cidr;
            hBits = 32 - cidr;
            hosts = (if hBits > 0 then js_pow2 hBits - 2 else 0);
            netClass = getNetworkClass (calc_firstOctet ip);
            baseCidr = calc_baseCidr ip parentCidr;
            bBits = calc_borrowedBits cidr baseCidr;
            firstHostLong = js_ushr (networkLong + 1) 0;
            lastHostLong = js_ushr (broadcastLong - 1) 0
        in
        \<lparr>ip_field = ip, cidr_field = cidr,
         subnetMask = longToIp maskLong,
         networkAddress = longToIp networkLong,
         broadcastAddress = longToIp broadcastLong,
         firstHost = (if cidr < 31 then longToIp firstHostLong else ''N/A''),
         lastHost = (if cidr < 31 then longToIp lastHostLong else ''N/A''),
         hostsPerSubnet = (if hosts > 0 then hosts else 0),
         hostBits = hBits,
         borrowedBits = bBits,
         subnetsCreated = js_pow2 bBits,
         networkClass = fst netClass,
         defaultCidr = snd netClass,
         baseCidr_field = baseCidr,
         binaryIp = toBinaryString ipLong,
         binaryMask = toBinaryString maskLong,
         binaryNet = toBinaryString networkLong,
         isValid = True\<rparr>)"

section \<open>Subnet enumerator\<close>

record SubnetRow =
  row_index :: int
  row_networkAddress :: string
  row_range :: string
  row_broadcastAddress :: string
  isCurrent :: bool

record SubnetTable =
  rows :: "SubnetRow list"
  totalCount :: int
  truncated :: bool

text \<open>The local constants of the loop body of \<^verbatim>\<open>generateSubnetTable\<close> at index \<open>i\<close>.\<close>

definition table_baseNetworkLong :: "string \<Rightarrow> int \<Rightarrow> int" where
  "table_baseNetworkLong ip baseCidr =
     js_ushr (js_and (ipToLong ip) (js_ushr (js_shl (- 1) (32 - baseCidr)) 0)) 0"

definition table_increment :: "int \<Rightarrow> int" where
  "table_increment cidr = js_pow2 (32 - cidr)"

definition table_currentNet :: "string \<Rightarrow> int \<Rightarrow> int \<Rightarrow> int \<Rightarrow> int" where
  "table_currentNet ip cidr baseCidr i =
     js_ushr (table_baseNetworkLong ip baseCidr + i * table_increment cidr) 0"

definition table_currentBroadcast :: "string \<Rightarrow> int \<Rightarrow> int \<Rightarrow> int \<Rightarrow> int" where
  "table_currentBroadcast ip cidr baseCidr i =
     js_ushr (table_currentNet ip cidr baseCidr i + table_increment cidr - 1) 0"

definition table_row :: "string \<Rightarrow> int \<Rightarrow> int \<Rightarrow> int \<Rightarrow> SubnetRow" where
  "table_row ip cidr baseCidr i =
     (let ipLong = ipToLong ip;
          currentNet = table_currentNet ip cidr baseCidr i;
          currentBroadcast = table_currentBroadcast ip cidr baseCidr i;
          startHost = js_ushr (currentNet + 1) 0;
          endHost = js_ushr (currentBroadcast - 1) 0
      in
      \<lparr>row_index = i + 1,
       row_networkAddress = longToIp currentNet,
       row_range = (if cidr < 31 then longToIp startHost @ '' - '' @ longToIp endHost
                    else ''N/A''),
       row_broadcastAddress = longToIp currentBroadcast,
       isCurrent = (ipLong \<ge> currentNet \<and> ipLong \<le> currentBroadcast)\<rparr>)"

text \<open>
  The loop \<^verbatim>\<open>for (let i = 0; i < loopLimit; i++) rows.push(...)\<close>, from index \<open>i\<close>
  on: the rows it still pushes, in order.
\<close>

function table_loop :: "string \<Rightarrow> int \<Rightarrow> int \<Rightarrow> int \<Rightarrow> int \<Rightarrow> SubnetRow list" where
  "table_loop ip cidr baseCidr loopLimit i =
     (if i < loopLimit
      then table_row ip cidr baseCidr i # table_loop ip cidr baseCidr loopLimit (i + 1)
      else [])"
  by pat_completeness auto
termination
  by (relation "measure (\<lambda>(ip, cidr, baseCidr, loopLimit, i). nat (loopLimit - i))") auto

declare table_loop.simps [simp del]

definition generateSubnetTable :: "string \<Rightarrow> int \<Rightarrow> int \<Rightarrow> int \<Rightarrow> SubnetTable" where
  "generateSubnetTable ip cidr baseCidr limit =
     (if \<not> isValidIp ip \<or> cidr < baseCidr then
        \<lparr>rows = [], totalCount = 0, truncated = False\<rparr>
      else
        let total = js_pow2 (cidr - baseCidr);
            loopLimit = min total limit
        in \<lparr>rows = table_loop ip cidr baseCidr loopLimit 0,
            totalCount = total,
            truncated = (total > limit)\<rparr>)"

text \<open>The default of the parameter \<open>limit\<close>.\<close>

definition defaultLimit :: int where
  "defaultLimit = 256"

section \<open>The specification's notions\<close>

text \<open>
  A part is canonical, in the words of the specification, when it is a decimal integer
  in 0..255 written without sign, white space or leading zeros: a non-empty run of
  digits that starts with \<open>0\<close> only when it is \<open>0\<close> itself, of value at most 255.
\<close>

definition spec_canonicalOctet :: "string \<Rightarrow> bool" where
  "spec_canonicalOctet part =
     (part \<noteq> [] \<and> list_all isDigit part \<and> (hd part = CHR ''0'' \<longrightarrow> part = ''0'')
      \<and> digitsValue part \<le> 255)"

text \<open>
  Byte \<open>k\<close> of a number cut to 32 bits, byte 0 the least significant: what
  \<open>longToIp\<close> prints, for any number.
\<close>

definition byteOf :: "nat \<Rightarrow> int \<Rightarrow> nat" where
  "byteOf k long = nat ((long mod 2 ^ 32) div 2 ^ (8 * k) mod 256)"

text \<open>The number of the dotted quad \<open>a.b.c.d\<close>.\<close>

definition dotted :: "nat \<Rightarrow> nat \<Rightarrow> nat \<Rightarrow> nat \<Rightarrow> int" where
  "dotted a b c d = int a * 16777216 + int b * 65536 + int c * 256 + int d"

text \<open>
  The default prefix of the legacy class of a first octet, as the specification lists
  the classes: A 0..127, B 128..191, C 192..223, D 224..239 and E 240..255.
\<close>

definition spec_defaultPrefix :: "int \<Rightarrow> int" where
  "spec_defaultPrefix octet =
     (if 0 \<le> octet \<and> octet \<le> 127 then 8
      else if 128 \<le> octet \<and> octet \<le> 191 then 16
      else if 192 \<le> octet \<and> octet \<le> 223 then 24
      else if 224 \<le> octet \<and> octet \<le> 239 then 0
      else 0)"

text \<open>
  The block \<open>base/prefix\<close> of the specification: the \<open>2^(32 - prefix)\<close> numbers from
  \<open>base\<close> on.
\<close>

definition spec_inBlock :: "int \<Rightarrow> int \<Rightarrow> nat \<Rightarrow> bool" where
  "spec_inBlock x base prefix = (base \<le> x \<and> x < base + 2 ^ (32 - prefix))"

text \<open>
  The classification in the words of the specification: the category, the range name
  and the minimum safe prefix, by the first block in the fixed order that holds the
  address.
\<close>

definition spec_classify :: "string \<Rightarrow> IpType \<times> string option \<times> int option" where
  "spec_classify ip =
     (if \<not> isValidIp ip then (Unknown, None, None)
      else if spec_inBlock (ipToLong ip) (dotted 10 0 0 0) 8
        then (Private, Some ''10.0.0.0/8'', Some 8)
      else if spec_inBlock (ipToLong ip) (dotted 172 16 0 0) 12
        then (Private, Some ''172.16.0.0/12'', Some 12)
      else if spec_inBlock (ipToLong ip) (dotted 192 168 0 0) 16
        then (Private, Some ''192.168.0.0/16'', Some 16)
      else if spec_inBlock (ipToLong ip) (dotted 127 0 0 0) 8 then (Loopback, None, None)
      else if spec_inBlock (ipToLong ip) (dotted 169 254 0 0) 16 then (LinkLocal, None, None)
      else if spec_inBlock (ipToLong ip) (dotted 100 64 0 0) 10 then (CGNAT, None, None)
      else if spec_inBlock (ipToLong ip) (dotted 224 0 0 0) 4 then (Multicast, None, None)
      else if spec_inBlock (ipToLong ip) (dotted 240 0 0 0) 4 then (Reserved, None, None)
      else (Public, None, None))"

text \<open>
  The mask, network and broadcast address of the specification, as unsigned 32-bit
  numbers: the mask is all ones shifted left by \<open>32 - cidr\<close> bits, cut to 32 bits.
\<close>

definition spec_mask :: "int \<Rightarrow> int" where
  "spec_mask cidr = toUint32 (push_bit (nat (32 - cidr)) (2 ^ 32 - 1))"

definition spec_network :: "int \<Rightarrow> int \<Rightarrow> int" where
  "spec_network a cidr = a AND spec_mask cidr"

definition spec_broadcast :: "int \<Rightarrow> int \<Rightarrow> int" where
  "spec_broadcast a cidr = spec_network a cidr OR toUint32 (NOT (spec_mask cidr))"

text \<open>
  The three RFC 1918 ranges of the specification, in its order, each with its first and
  last address, and the first of them that the span of the network \<open>a/cidr\<close> meets.
\<close>

definition spec_privateRanges :: "(int \<times> int \<times> string) list" where
  "spec_privateRanges =
     [(dotted 10 0 0 0, dotted 10 255 255 255, ''10.0.0.0/8''),
      (dotted 172 16 0 0, dotted 172 31 255 255, ''172.16.0.0/12''),
      (dotted 192 168 0 0, dotted 192 168 255 255, ''192.168.0.0/16'')]"

definition spec_overlap :: "int \<Rightarrow> int \<Rightarrow> string option" where
  "spec_overlap a cidr =
     map_option (\<lambda>(otherStart, otherEnd, name). name)
       (find (\<lambda>(otherStart, otherEnd, name).
                spec_network a cidr \<le> otherEnd \<and> spec_broadcast a cidr \<ge> otherStart)
          spec_privateRanges)"

section \<open>Splitting and joining\<close>

lemma split_dot_nonempty [simp]: "split_dot s \<noteq> []"
  by (induction s) auto

lemma join_dot_Cons: "ps \<noteq> [] \<Longrightarrow> join_dot (p # ps) = p @ CHR ''.'' # join_dot ps"
  by (cases ps) auto

lemma join_dot_cons_hd: "ps \<noteq> [] \<Longrightarrow> join_dot ((c # hd ps) # tl ps) = c # join_dot ps"
  by (cases ps rule: join_dot.cases) auto

lemma join_split_dot: "join_dot (split_dot s) = s"
  by (induction s) (auto simp: join_dot_Cons join_dot_cons_hd)

lemma split_dot_no_dot: "CHR ''.'' \<notin> set p \<Longrightarrow> split_dot p = [p]"
  by (induction p) auto

lemma split_dot_append:
  "CHR ''.'' \<notin> set p \<Longrightarrow> split_dot (p @ CHR ''.'' # s) = p # split_dot s"
  by (induction p) auto

lemma split_join_dot:
  "ps \<noteq> [] \<Longrightarrow> \<forall>p \<in> set ps. CHR ''.'' \<notin> set p \<Longrightarrow> split_dot (join_dot ps) = ps"
  by (induction ps rule: join_dot.induct) (auto simp: split_dot_no_dot split_dot_append)

lemma digitVal_digitChar: "d < 10 \<Longrightarrow> digitVal (digitChar d) = d"
  by (simp add: digitVal_def digitChar_def)

lemma isDigit_digitChar: "d < 10 \<Longrightarrow> isDigit (digitChar d)"
  by (simp add: isDigit_def digitChar_def)

lemma digitChar_digitVal: "isDigit c \<Longrightarrow> digitChar (digitVal c) = c"
  by (simp add: isDigit_def digitChar_def digitVal_def)

lemma digitVal_less: "isDigit c \<Longrightarrow> digitVal c < 10"
  by (auto simp add: isDigit_def digitVal_def)

lemma isDigit_not_ws: "isDigit c \<Longrightarrow> \<not> isWhiteSpace c"
  by (auto simp: isDigit_def isWhiteSpace_def)

lemma isDigit_not_sign: "isDigit c \<Longrightarrow> c \<noteq> CHR ''-'' \<and> c \<noteq> CHR ''+'' \<and> c \<noteq> CHR ''.''"
  by (auto simp: isDigit_def)

lemma natToString_digits: "\<forall>c \<in> set (natToString n). isDigit c"
  by (induction n rule: natToString.induct)
     (subst natToString.simps, auto simp: isDigit_digitChar)

lemma natToString_nonempty: "natToString n \<noteq> []"
  by (subst natToString.simps) auto

lemma digitsValue_snoc: "digitsValue (ds @ [c]) = 10 * digitsValue ds + digitVal c"
  by (simp add: digitsValue_def)

lemma digitsValue_natToString: "digitsValue (natToString n) = n"
proof (induction n rule: natToString.induct)
  case (1 n)
  show ?case
  proof (cases "n < 10")
    case True
    then show ?thesis
      by (subst natToString.simps) (simp add: digitsValue_def digitVal_digitChar)
  next
    case False
    then have "digitsValue (natToString (n div 10)) = n div 10"
      using 1 by simp
    with False show ?thesis
      by (subst natToString.simps) (simp add: digitsValue_snoc digitVal_digitChar)
  qed
qed

lemma parseInt_digits:
  assumes "ds \<noteq> []" and "\<forall>c \<in> set ds. isDigit c"
  shows "parseInt ds = Some (int (digitsValue ds))"
proof -
  obtain c cs where ds: "ds = c # cs" using assms(1) by (cases ds) auto
  have c: "isDigit c" using assms(2) ds by simp
  have 1: "dropWhile isWhiteSpace ds = ds"
    using c ds by (simp add: isDigit_not_ws)
  have 2: "takeWhile isDigit ds = ds"
    using assms(2) by (induction ds) auto
  show ?thesis
    unfolding parseInt_def 1 Let_def
    using isDigit_not_sign [OF c] assms(1) 2 by (simp add: ds)
qed

lemma parseInt_natToString: "parseInt (natToString n) = Some (int n)"
  by (simp add: parseInt_digits natToString_nonempty natToString_digits digitsValue_natToString)

section \<open>Canonical decimal text\<close>

lemma digitsValue_foldl_ge: "a \<le> foldl (\<lambda>acc c. 10 * acc + digitVal c) a cs"
proof (induction cs arbitrary: a)
  case Nil
  show ?case by simp
next
  case (Cons c cs)
  have "a \<le> 10 * a + digitVal c" by simp
  also have "\<dots> \<le> foldl (\<lambda>acc c. 10 * acc + digitVal c) (10 * a + digitVal c) cs"
    by (rule Cons.IH)
  finally show ?case by simp
qed

lemma digitVal_pos: "isDigit c \<Longrightarrow> c \<noteq> CHR ''0'' \<Longrightarrow> 0 < digitVal c"
  using of_char_eq_iff [of c "CHR ''0''", where ?'a = nat]
  by (simp add: isDigit_def digitVal_def)

lemma digitsValue_pos:
  assumes "ds \<noteq> []" and "isDigit (hd ds)" and "hd ds \<noteq> CHR ''0''"
  shows "0 < digitsValue ds"
proof -
  obtain c cs where ds: "ds = c # cs" using assms(1) by (cases ds) auto
  have "0 < digitVal c" using assms ds by (simp add: digitVal_pos)
  also have "digitVal c \<le> digitsValue ds"
    using digitsValue_foldl_ge [of "digitVal c" cs] by (simp add: digitsValue_def ds)
  finally show ?thesis .
qed

lemma natToString_digitsValue:
  "ds \<noteq> [] \<Longrightarrow> \<forall>c \<in> set ds. isDigit c \<Longrightarrow> (hd ds = CHR ''0'' \<longrightarrow> ds = ''0'')
   \<Longrightarrow> natToString (digitsValue ds) = ds"
proof (induction ds rule: rev_induct)
  case Nil
  then show ?case by simp
next
  case (snoc c qs)
  have c: "isDigit c" using snoc.prems(2) by simp
  show ?case
  proof (cases "qs = []")
    case True
    then show ?thesis
      using c by (subst natToString.simps)
        (simp add: digitsValue_def digitVal_less digitChar_digitVal)
  next
    case False
    then have hd: "hd (qs @ [c]) = hd qs" by simp
    have nz: "hd qs \<noteq> CHR ''0''"
      using snoc.prems(3) False unfolding hd by (cases qs) auto
    have qd: "\<forall>c \<in> set qs. isDigit c" using snoc.prems(2) by simp
    have ih: "natToString (digitsValue qs) = qs"
      using snoc.IH [OF False qd] nz by simp
    have "isDigit (hd qs)" using qd False by (cases qs) auto
    then have pos: "0 < digitsValue qs"
      using digitsValue_pos [OF False] nz by simp
    have lt: "digitVal c < 10" using c by (rule digitVal_less)
    have "natToString (10 * digitsValue qs + digitVal c) =
          natToString (digitsValue qs) @ [digitChar (digitVal c)]"
      using pos lt by (subst natToString.simps) simp
    then show ?thesis
      using c by (simp add: digitsValue_snoc ih digitChar_digitVal)
  qed
qed

lemma natToString_hd: "hd (natToString n) = CHR ''0'' \<Longrightarrow> n = 0"
proof (induction n rule: natToString.induct)
  case (1 n)
  show ?case
  proof (cases "n < 10")
    case True
    then have "natToString n = [digitChar n]" by (subst natToString.simps) simp
    with 1(2) have "digitChar n = CHR ''0''" by simp
    then have "digitVal (digitChar n) = digitVal (CHR ''0'')" by simp
    then show ?thesis using True by (simp add: digitVal_digitChar) (simp add: digitVal_def)
  next
    case False
    then have "natToString n = natToString (n div 10) @ [digitChar (n mod 10)]"
      by (subst natToString.simps) simp
    then have "hd (natToString n) = hd (natToString (n div 10))"
      by (simp add: natToString_nonempty)
    then have "n div 10 = 0" using 1 False by simp
    then show ?thesis using False by simp
  qed
qed

lemma natToString_0: "natToString 0 = ''0''"
  by code_simp

lemma validPart_iff_natToString:
  "validPart part \<longleftrightarrow> (\<exists>n\<le>255. part = natToString n)"
proof
  assume "validPart part"
  then obtain num where "parseInt part = Some num" "0 \<le> num" "num \<le> 255" "part = numToString num"
    by (auto simp: validPart_def split: option.splits)
  then have "nat num \<le> 255 \<and> part = natToString (nat num)"
    by (simp add: numToString_def)
  then show "\<exists>n\<le>255. part = natToString n" by blast
next
  assume "\<exists>n\<le>255. part = natToString n"
  then obtain n where "n \<le> 255" "part = natToString n" by blast
  then show "validPart part"
    by (simp add: validPart_def parseInt_natToString numToString_def)
qed

lemma canonicalOctet_iff_natToString:
  "spec_canonicalOctet part \<longleftrightarrow> (\<exists>n\<le>255. part = natToString n)"
proof
  assume a: "spec_canonicalOctet part"
  then have "natToString (digitsValue part) = part"
    by (intro natToString_digitsValue) (auto simp: spec_canonicalOctet_def list_all_iff)
  with a show "\<exists>n\<le>255. part = natToString n"
    unfolding spec_canonicalOctet_def by metis
next
  assume "\<exists>n\<le>255. part = natToString n"
  then obtain n where n: "n \<le> 255" "part = natToString n" by blast
  show "spec_canonicalOctet part"
    unfolding spec_canonicalOctet_def n(2)
    using n(1) natToString_digits [of n] natToString_hd [of n]
    by (auto simp: natToString_nonempty list_all_iff digitsValue_natToString natToString_0)
qed

lemma validPart_iff_canonical: "validPart part \<longleftrightarrow> spec_canonicalOctet part"
  by (simp add: validPart_iff_natToString canonicalOctet_iff_natToString)

section \<open>The 32-bit operators\<close>

lemma toUint32_range: "0 \<le> toUint32 x \<and> toUint32 x < 2 ^ 32"
  by (simp add: toUint32_def)

lemma toUint32_id: "0 \<le> x \<Longrightarrow> x < 2 ^ 32 \<Longrightarrow> toUint32 x = x"
  by (simp add: toUint32_def)

lemma toInt32_id: "- (2 ^ 31) \<le> x \<Longrightarrow> x < 2 ^ 31 \<Longrightarrow> toInt32 x = x"
proof -
  assume a: "- (2 ^ 31) \<le> x" "x < 2 ^ 31"
  show ?thesis
  proof (cases "0 \<le> x")
    case True
    with a have "x mod 2 ^ 32 = x" by simp
    with a show ?thesis by (simp add: toInt32_def)
  next
    case False
    with a have "(x + 2 ^ 32) mod 2 ^ 32 = x + 2 ^ 32" 
      by (intro mod_pos_pos_trivial) auto
    then have "x mod 2 ^ 32 = x + 2 ^ 32" by simp
    with a False show ?thesis by (simp add: toInt32_def)
  qed
qed

lemma toInt32_cong: "toInt32 x mod 4294967296 = x mod 4294967296"
proof (cases "x mod 4294967296 < 2147483648")
  case True
  then show ?thesis by (simp add: toInt32_def)
next
  case False
  then have "toInt32 x = x mod 4294967296 - 4294967296" by (simp add: toInt32_def)
  then have "toInt32 x mod 4294967296 = (x mod 4294967296 - 4294967296) mod 4294967296"
    by simp
  also have "\<dots> = x mod 4294967296" by (simp only: minus_mod_self2 mod_mod_trivial)
  finally show ?thesis .
qed

lemma mod_256_of_mod_2_32: "(y::int) mod 4294967296 mod 256 = y mod 256"
  by (rule mod_mod_cancel) simp

lemma toUint32_toInt32: "toUint32 (toInt32 x) = toUint32 x"
  by (simp add: toUint32_def toInt32_cong)

lemma js_ushr_0: "js_ushr x 0 = toUint32 x"
  by (simp add: js_ushr_def toUint32_def)

lemma js_ushr_numeral:
  "js_ushr x 24 = toUint32 x div 2 ^ 24"
  "js_ushr x 16 = toUint32 x div 2 ^ 16"
  "js_ushr x 8 = toUint32 x div 2 ^ 8"
  by (simp_all add: js_ushr_def toUint32_def)

lemma and_255: "(x::int) AND 255 = x mod 256"
proof -
  have "x AND mask 8 = take_bit 8 x" by (simp add: take_bit_eq_mask)
  then show ?thesis by (simp add: take_bit_eq_mod mask_eq_exp_minus_1)
qed

lemma js_and_255: "js_and x 255 = x mod 256"
proof -
  have "toInt32 255 = 255" by (simp add: toInt32_def)
  then have "js_and x 255 = toInt32 x mod 256" by (simp add: js_and_def and_255)
  also have "\<dots> = (toInt32 x mod 4294967296) mod 256"
    by (simp only: mod_256_of_mod_2_32)
  also have "\<dots> = (x mod 4294967296) mod 256"
    by (simp only: toInt32_cong)
  also have "\<dots> = x mod 256"
    by (simp only: mod_256_of_mod_2_32)
  finally show ?thesis .
qed

lemma byteOf_le: "byteOf k long \<le> 255"
proof -
  have "(long mod 2 ^ 32) div 2 ^ (8 * k) mod 256 < 256" by simp
  then show ?thesis unfolding byteOf_def by linarith
qed

lemma longToIp_bytes:
  "longToIp long =
     join_dot (map natToString [byteOf 3 long, byteOf 2 long, byteOf 1 long, byteOf 0 long])"
proof -
  have b3: "js_and (js_ushr long 24) 255 = int (byteOf 3 long)"
    by (simp add: js_and_255 js_ushr_numeral toUint32_def byteOf_def)
  have b2: "js_and (js_ushr long 16) 255 = int (byteOf 2 long)"
    by (simp add: js_and_255 js_ushr_numeral toUint32_def byteOf_def)
  have b1: "js_and (js_ushr long 8) 255 = int (byteOf 1 long)"
    by (simp add: js_and_255 js_ushr_numeral toUint32_def byteOf_def)
  have b0: "js_and long 255 = int (byteOf 0 long)"
    by (simp add: js_and_255 byteOf_def mod_256_of_mod_2_32)
  show ?thesis
    unfolding longToIp_def b3 b2 b1 b0 by (simp add: numToString_def)
qed

section \<open>Parsing a valid address\<close>

lemma js_shl_8: "js_shl x 8 = toInt32 (toInt32 x * 256)"
  by (simp add: js_shl_def toUint32_def)

lemma js_shl_8_small: "0 \<le> x \<Longrightarrow> x < 8388608 \<Longrightarrow> js_shl x 8 = x * 256"
  by (simp add: js_shl_8 toInt32_id)

lemma mod_cong_add:
  fixes a b :: int
  shows "a mod m = b mod m \<Longrightarrow> (a + n) mod m = (b + n) mod m"
  by (metis mod_add_left_eq)

lemma mod_cong_affine:
  fixes a b :: int
  assumes "a mod m = b mod m"
  shows "(a * k + n) mod m = (b * k + n) mod m"
proof -
  have "(a * k) mod m = (b * k) mod m"
    using assms by (metis mod_mult_left_eq)
  then show ?thesis by (rule mod_cong_add)
qed

lemma toUint32_js_shl_8: "toUint32 (js_shl x 8 + n) = (x * 256 + n) mod 4294967296"
proof -
  have "(toInt32 (toInt32 x * 256) + n) mod 4294967296 = (toInt32 x * 256 + n) mod 4294967296"
    by (rule mod_cong_add) (rule toInt32_cong)
  also have "\<dots> = (x * 256 + n) mod 4294967296"
    by (rule mod_cong_affine) (rule toInt32_cong)
  finally show ?thesis
    by (simp add: toUint32_def js_shl_8)
qed

lemma isValidIp_parts:
  assumes "isValidIp ip"
  obtains a b c d where "a \<le> 255" "b \<le> 255" "c \<le> 255" "d \<le> 255"
    and "split_dot ip = [natToString a, natToString b, natToString c, natToString d]"
proof -
  from assms have len: "length (split_dot ip) = 4" and all: "list_all validPart (split_dot ip)"
    by (auto simp: isValidIp_def Let_def split: if_splits)
  from len obtain p q r s where ps: "split_dot ip = [p, q, r, s]"
    by (auto simp: length_Suc_conv numeral_eq_Suc)
  with all have "validPart p" "validPart q" "validPart r" "validPart s" by simp_all
  then obtain a b c d where "a \<le> 255" "p = natToString a" "b \<le> 255" "q = natToString b"
      "c \<le> 255" "r = natToString c" "d \<le> 255" "s = natToString d"
    unfolding validPart_iff_natToString by blast
  with ps that show thesis by blast
qed

lemma ipToLong_parts:
  assumes "a \<le> 255" "b \<le> 255" "c \<le> 255" "d \<le> 255"
    and "split_dot ip = [natToString a, natToString b, natToString c, natToString d]"
  shows "ipToLong ip = dotted a b c d"
proof -
  have s0: "js_shl 0 8 = 0" by (simp add: js_shl_8_small)
  have s1: "js_shl (int a) 8 = int a * 256"
    using assms(1) by (simp add: js_shl_8_small)
  have s2: "js_shl (int a * 256 + int b) 8 = (int a * 256 + int b) * 256"
    using assms(1,2) by (simp add: js_shl_8_small)
  have "foldl ipToLong_step (Some 0) (split_dot ip) =
        Some (js_shl ((int a * 256 + int b) * 256 + int c) 8 + int d)"
    by (simp add: assms(5) ipToLong_step_def parseInt_natToString nanToZero_def s0 s1 s2)
  then have "ipToLong ip = (((int a * 256 + int b) * 256 + int c) * 256 + int d) mod 4294967296"
    by (simp add: ipToLong_def js_ushr_0 nanToZero_def toUint32_js_shl_8)
  also have "\<dots> = ((int a * 256 + int b) * 256 + int c) * 256 + int d"
    using assms(1-4) by (intro mod_pos_pos_trivial) auto
  finally show ?thesis by (simp add: dotted_def)
qed

lemma dotted_range: "a \<le> 255 \<Longrightarrow> b \<le> 255 \<Longrightarrow> c \<le> 255 \<Longrightarrow> d \<le> 255 \<Longrightarrow>
  0 \<le> dotted a b c d \<and> dotted a b c d < 4294967296"
  by (simp add: dotted_def)

lemma div_mod_decomp:
  fixes q r n :: int
  assumes "0 \<le> r" "r < n"
  shows "(q * n + r) div n = q" "(q * n + r) mod n = r"
  using assms by (simp_all add: div_pos_pos_trivial)

lemma byteOf_dotted:
  assumes "a \<le> 255" "b \<le> 255" "c \<le> 255" "d \<le> 255"
  shows "byteOf 3 (dotted a b c d) = a" "byteOf 2 (dotted a b c d) = b"
    "byteOf (Suc 0) (dotted a b c d) = c" "byteOf 0 (dotted a b c d) = d"
proof -
  let ?X = "dotted a b c d"
  have m: "?X mod 4294967296 = ?X"
    using dotted_range [OF assms] by simp
  have ra: "int a mod 256 = int a"
    using assms(1) by simp
  have x3: "?X = int a * 16777216 + (int b * 65536 + int c * 256 + int d)"
    by (simp add: dotted_def)
  have "?X div 16777216 = int a"
    unfolding x3 using assms by (intro div_mod_decomp) auto
  then show "byteOf 3 ?X = a"
    by (simp add: byteOf_def m ra)
  have x2: "?X = (int a * 256 + int b) * 65536 + (int c * 256 + int d)"
    by (simp add: dotted_def)
  have "?X div 65536 = int a * 256 + int b"
    unfolding x2 using assms by (intro div_mod_decomp) auto
  moreover have "(int a * 256 + int b) mod 256 = int b"
    using assms by (intro div_mod_decomp) auto
  ultimately show "byteOf 2 ?X = b"
    by (simp add: byteOf_def m)
  have x1: "?X = ((int a * 256 + int b) * 256 + int c) * 256 + int d"
    by (simp add: dotted_def)
  have "?X div 256 = (int a * 256 + int b) * 256 + int c"
    unfolding x1 using assms by (intro div_mod_decomp) auto
  moreover have "((int a * 256 + int b) * 256 + int c) mod 256 = int c"
    using assms by (intro div_mod_decomp) auto
  ultimately show "byteOf (Suc 0) ?X = c"
    by (simp add: byteOf_def m)
  have "?X mod 256 = int d"
    unfolding x1 using assms by (intro div_mod_decomp) auto
  then show "byteOf 0 ?X = d"
    by (simp add: byteOf_def m)
qed

lemma longToIp_ipToLong: "isValidIp ip \<Longrightarrow> longToIp (ipToLong ip) = ip"
proof -
  assume "isValidIp ip"
  then obtain a b c d where r: "a \<le> 255" "b \<le> 255" "c \<le> 255" "d \<le> 255"
    and ps: "split_dot ip = [natToString a, natToString b, natToString c, natToString d]"
    by (rule isValidIp_parts)
  have "longToIp (ipToLong ip) = join_dot (split_dot ip)"
    by (simp add: ipToLong_parts [OF r ps] longToIp_bytes byteOf_dotted [OF r] ps)
  then show ?thesis by (simp add: join_split_dot)
qed

section \<open>Printing an address\<close>

lemma longToIp_toUint32: "longToIp (toUint32 x) = longToIp x"
  by (simp add: longToIp_bytes byteOf_def toUint32_def)

lemma longToIp_js_ushr_0: "longToIp (js_ushr x 0) = longToIp x"
  by (simp add: js_ushr_0 longToIp_toUint32)

lemma natToString_no_dot: "CHR ''.'' \<notin> set (natToString n)"
  using natToString_digits [of n] isDigit_not_sign by blast

lemma split_dot_longToIp:
  "split_dot (longToIp x) =
     [natToString (byteOf 3 x), natToString (byteOf 2 x), natToString (byteOf 1 x),
      natToString (byteOf 0 x)]"
  unfolding longToIp_bytes
  by (rule trans [OF split_join_dot]) (simp_all add: natToString_no_dot)

lemma dotted_byteOf:
  "dotted (byteOf 3 x) (byteOf 2 x) (byteOf 1 x) (byteOf 0 x) = x mod 4294967296"
proof -
  define y where "y = x mod 4294967296"
  define q1 where "q1 = y div 256"
  define q2 where "q2 = q1 div 256"
  define q3 where "q3 = q2 div 256"
  have y: "0 \<le> y" "y < 4294967296" by (simp_all add: y_def)
  have e1: "y = q1 * 256 + y mod 256" by (simp add: q1_def)
  have e2: "q1 = q2 * 256 + q1 mod 256" by (simp add: q2_def)
  have e3: "q2 = q3 * 256 + q2 mod 256" by (simp add: q3_def)
  have d2: "y div 65536 = q2"
    using zdiv_zmult2_eq [of 256 y 256] by (simp add: q1_def q2_def)
  have d3: "y div 16777216 = q3"
    using zdiv_zmult2_eq [of 256 y 65536] by (simp add: d2 q3_def)
  have "q3 < 256" "0 \<le> q3" using y unfolding d3 [symmetric] by auto
  then have m3: "q3 mod 256 = q3" by simp
  have b3: "int (byteOf 3 x) = q3"
    by (simp add: byteOf_def y_def [symmetric] d3 m3 \<open>0 \<le> q3\<close>)
  have b2: "int (byteOf 2 x) = q2 mod 256"
    by (simp add: byteOf_def y_def [symmetric] d2)
  have b1: "int (byteOf 1 x) = q1 mod 256"
    by (simp add: byteOf_def y_def [symmetric] q1_def)
  have b0: "int (byteOf 0 x) = y mod 256"
    by (simp add: byteOf_def y_def [symmetric])
  have "dotted (byteOf 3 x) (byteOf 2 x) (byteOf 1 x) (byteOf 0 x) =
        q3 * 16777216 + (q2 mod 256) * 65536 + (q1 mod 256) * 256 + y mod 256"
    unfolding dotted_def b3 b2 b1 b0 ..
  also have "\<dots> = ((q3 * 256 + q2 mod 256) * 256 + q1 mod 256) * 256 + y mod 256"
    by (simp add: algebra_simps)
  also have "\<dots> = y"
    using e1 e2 e3 by simp
  finally show ?thesis by (simp add: y_def)
qed

lemma ipToLong_longToIp: "ipToLong (longToIp x) = x mod 4294967296"
  using ipToLong_parts [OF byteOf_le byteOf_le byteOf_le byteOf_le split_dot_longToIp, of x]
  by (simp only: dotted_byteOf)

lemma isValidIp_longToIp: "isValidIp (longToIp x)"
  unfolding isValidIp_def split_dot_longToIp
  using byteOf_le by (auto simp: validPart_iff_natToString)

lemma isValidIp_ipToLong_range:
  "isValidIp ip \<Longrightarrow> 0 \<le> ipToLong ip \<and> ipToLong ip < 4294967296"
  by (erule isValidIp_parts) (simp add: ipToLong_parts dotted_range)

section \<open>The codec claims\<close>

text \<open>
  C4. Round trip: for every string that \<open>isValidIp\<close> accepts, printing the number
  that \<open>ipToLong\<close> reads from it gives the string back.
\<close>

theorem roundtrip_longToIp_ipToLong:
  "isValidIp S \<Longrightarrow> longToIp (ipToLong S) = S"
  by (rule longToIp_ipToLong)

theorem roundtrip_longToIp_ipToLong_witness:
  "isValidIp ''192.168.1.10'' \<and> longToIp (ipToLong ''192.168.1.10'') = ''192.168.1.10''"
proof -
  have h: "isValidIp ''192.168.1.10''" by code_simp
  show ?thesis using h roundtrip_longToIp_ipToLong [OF h] by simp
qed

lemma isValidIp_iff_canonical:
  "isValidIp str \<longleftrightarrow>
     length (split_dot str) = 4 \<and> (\<forall>part \<in> set (split_dot str). spec_canonicalOctet part)"
  by (auto simp: isValidIp_def Let_def list_all_iff validPart_iff_canonical)

lemma canonicalOctet_no_leading_zero:
  "spec_canonicalOctet part \<Longrightarrow> \<not> (1 < length part \<and> hd part = CHR ''0'')"
  by (auto simp: spec_canonicalOctet_def)

lemma canonicalOctet_no_space_or_sign:
  assumes "spec_canonicalOctet part" and "c \<in> set part"
  shows "\<not> isWhiteSpace c \<and> c \<noteq> CHR ''+'' \<and> c \<noteq> CHR ''-''"
proof -
  have "isDigit c" using assms by (auto simp: spec_canonicalOctet_def list_all_iff)
  then show ?thesis using isDigit_not_ws isDigit_not_sign by blast
qed

text \<open>
  C5. \<open>isValidIp\<close> accepts a text exactly when its split on the dot has four parts
  and each part is canonical; it rejects the five listed texts, and every text with a
  part that has a leading zero, a white space or a sign.
\<close>

theorem isValidIp_accepts_iff:
  "(isValidIp str \<longleftrightarrow>
      length (split_dot str) = 4 \<and> (\<forall>part \<in> set (split_dot str). spec_canonicalOctet part))
   \<and> \<not> isValidIp ''256.1.1.1'' \<and> \<not> isValidIp ''1.2.3'' \<and> \<not> isValidIp ''1.2.3.04''
   \<and> \<not> isValidIp ''1.2.3.4.5'' \<and> \<not> isValidIp ''a.b.c.d''
   \<and> ((\<exists>part \<in> set (split_dot str).
          (1 < length part \<and> hd part = CHR ''0'')
          \<or> (\<exists>c \<in> set part. isWhiteSpace c \<or> c = CHR ''+'' \<or> c = CHR ''-''))
        \<longrightarrow> \<not> isValidIp str)"
proof -
  have r1: "\<not> isValidIp ''256.1.1.1''" by code_simp
  have r2: "\<not> isValidIp ''1.2.3''" by code_simp
  have r3: "\<not> isValidIp ''1.2.3.04''" by code_simp
  have r4: "\<not> isValidIp ''1.2.3.4.5''" by code_simp
  have r5: "\<not> isValidIp ''a.b.c.d''" by code_simp
  have bad: "(\<exists>part \<in> set (split_dot str).
          (1 < length part \<and> hd part = CHR ''0'')
          \<or> (\<exists>c \<in> set part. isWhiteSpace c \<or> c = CHR ''+'' \<or> c = CHR ''-''))
        \<longrightarrow> \<not> isValidIp str"
    unfolding isValidIp_iff_canonical
    using canonicalOctet_no_leading_zero canonicalOctet_no_space_or_sign by blast
  show ?thesis
    using r1 r2 r3 r4 r5 bad isValidIp_iff_canonical [of str] by blast
qed

theorem isValidIp_accepts_iff_witness:
  "isValidIp ''192.168.1.10''
   \<and> length (split_dot ''192.168.1.10'') = 4
   \<and> list_all spec_canonicalOctet (split_dot ''192.168.1.10'')
   \<and> (\<exists>part \<in> set (split_dot ''1.2.3. 4''). \<exists>c \<in> set part. isWhiteSpace c)
   \<and> \<not> isValidIp ''1.2.3. 4''
   \<and> (\<exists>part \<in> set (split_dot ''-1.2.3.4''). \<exists>c \<in> set part. c = CHR ''-'')
   \<and> \<not> isValidIp ''-1.2.3.4''"
proof -
  have v: "isValidIp ''192.168.1.10''" by code_simp
  have w: "\<exists>part \<in> set (split_dot ''1.2.3. 4''). \<exists>c \<in> set part. isWhiteSpace c" by code_simp
  have s: "\<exists>part \<in> set (split_dot ''-1.2.3.4''). \<exists>c \<in> set part. c = CHR ''-''" by code_simp
  show ?thesis
    using v w s isValidIp_accepts_iff [of "''192.168.1.10''"]
      isValidIp_accepts_iff [of "''1.2.3. 4''"] isValidIp_accepts_iff [of "''-1.2.3.4''"]
    unfolding list_all_iff by blast
qed

section \<open>Base prefix and borrowed bits\<close>

lemma dotted_div:
  assumes "b \<le> 255" "c \<le> 255" "d \<le> 255"
  shows "dotted a b c d div 16777216 = int a"
proof -
  have "dotted a b c d = int a * 16777216 + (int b * 65536 + int c * 256 + int d)"
    by (simp add: dotted_def)
  then show ?thesis
    using assms by (simp add: div_pos_pos_trivial)
qed

lemma calc_firstOctet_valid:
  assumes "isValidIp ip"
  shows "calc_firstOctet ip = Some (ipToLong ip div 16777216)"
proof -
  from assms obtain a b c d where r: "a \<le> 255" "b \<le> 255" "c \<le> 255" "d \<le> 255"
    and ps: "split_dot ip = [natToString a, natToString b, natToString c, natToString d]"
    by (rule isValidIp_parts)
  have "calc_firstOctet ip = Some (int a)"
    by (simp add: calc_firstOctet_def ps parseInt_natToString)
  moreover have "ipToLong ip div 16777216 = int a"
    by (simp only: ipToLong_parts [OF r ps] dotted_div [OF r(2-4)])
  ultimately show ?thesis by simp
qed

lemma getNetworkClass_default: "snd (getNetworkClass (Some v)) = spec_defaultPrefix v"
  by (simp add: getNetworkClass_def spec_defaultPrefix_def)

lemma calc_baseCidr_valid:
  "isValidIp ip \<Longrightarrow>
   calc_baseCidr ip parentCidr =
     (case parentCidr of Some p \<Rightarrow> p | None \<Rightarrow> spec_defaultPrefix (ipToLong ip div 16777216))"
  by (simp add: calc_baseCidr_def calc_firstOctet_valid getNetworkClass_default
      split: option.splits)

text \<open>
  C9. For a valid address, \<open>baseCidr\<close> is \<open>parentCidr\<close> when it is supplied and
  otherwise the default prefix of the legacy class of the first octet (the top byte of
  the address); \<open>borrowedBits\<close> is \<open>cidr - baseCidr\<close> when \<open>baseCidr > 0\<close> and
  \<open>cidr \<ge> baseCidr\<close>, and 0 otherwise; \<open>subnetsCreated\<close> is 2 to the power
  \<open>borrowedBits\<close>.
\<close>

theorem calculateSubnet_baseCidr_borrowedBits:
  assumes "isValidIp ip"
  shows "baseCidr_field (calculateSubnet ip cidr parentCidr) =
           (case parentCidr of
              Some p \<Rightarrow> p
            | None \<Rightarrow> spec_defaultPrefix (ipToLong ip div 16777216))
       \<and> borrowedBits (calculateSubnet ip cidr parentCidr) =
           (if baseCidr_field (calculateSubnet ip cidr parentCidr) > 0
               \<and> cidr \<ge> baseCidr_field (calculateSubnet ip cidr parentCidr)
            then cidr - baseCidr_field (calculateSubnet ip cidr parentCidr) else 0)
       \<and> subnetsCreated (calculateSubnet ip cidr parentCidr) =
           2 ^ nat (borrowedBits (calculateSubnet ip cidr parentCidr))"
proof -
  have b: "baseCidr_field (calculateSubnet ip cidr parentCidr) = calc_baseCidr ip parentCidr"
    using assms by (simp add: calculateSubnet_def Let_def)
  have bb: "borrowedBits (calculateSubnet ip cidr parentCidr) =
            calc_borrowedBits cidr (calc_baseCidr ip parentCidr)"
    using assms by (simp add: calculateSubnet_def Let_def)
  have sc: "subnetsCreated (calculateSubnet ip cidr parentCidr) =
            js_pow2 (calc_borrowedBits cidr (calc_baseCidr ip parentCidr))"
    using assms by (simp add: calculateSubnet_def Let_def)
  show ?thesis
    unfolding b bb sc calc_baseCidr_valid [OF assms]
    by (simp add: calc_borrowedBits_def js_pow2_def)
qed

theorem calculateSubnet_baseCidr_borrowedBits_witness:
  "isValidIp ''172.16.5.4''
   \<and> baseCidr_field (calculateSubnet ''172.16.5.4'' 20 None) = 16
   \<and> borrowedBits (calculateSubnet ''172.16.5.4'' 20 None) = 4
   \<and> subnetsCreated (calculateSubnet ''172.16.5.4'' 20 None) = 16
   \<and> baseCidr_field (calculateSubnet ''172.16.5.4'' 20 (Some 12)) = 12
   \<and> borrowedBits (calculateSubnet ''172.16.5.4'' 20 (Some 12)) = 8
   \<and> subnetsCreated (calculateSubnet ''172.16.5.4'' 20 (Some 12)) = 256"
proof -
  have v: "isValidIp ''172.16.5.4''" by code_simp
  have l: "ipToLong ''172.16.5.4'' = 2886731012" by code_simp
  show ?thesis
    using v calculateSubnet_baseCidr_borrowedBits [OF v, of 20 None]
      calculateSubnet_baseCidr_borrowedBits [OF v, of 20 "Some 12"]
    by (simp add: l spec_defaultPrefix_def)
qed

section \<open>Hosts of a subnet\<close>

lemma toInt32_minus_1: "toInt32 (- 1) = - 1"
  by (simp add: toInt32_def)

lemma calc_maskLong_32: "calc_maskLong 32 = - 1"
  by (simp add: calc_maskLong_def js_shl_def toUint32_def toInt32_def)

lemma js_and_minus_1: "js_and x (- 1) = toInt32 x"
  by (simp add: js_and_def toInt32_minus_1)

lemma js_or_not_minus_1: "js_or x (js_not (- 1)) = toInt32 x"
  by (simp add: js_or_def js_not_def toInt32_minus_1) (simp add: toInt32_def)

lemma calc_networkLong_32:
  "isValidIp ip \<Longrightarrow> calc_networkLong ip 32 = ipToLong ip"
  using isValidIp_ipToLong_range [of ip]
  by (simp add: calc_networkLong_def calc_maskLong_32 js_and_minus_1 js_ushr_0
      toUint32_toInt32 toUint32_id)

lemma calc_broadcastLong_32:
  "isValidIp ip \<Longrightarrow> calc_broadcastLong ip 32 = ipToLong ip"
  using isValidIp_ipToLong_range [of ip]
  by (simp add: calc_broadcastLong_def calc_networkLong_32 calc_maskLong_32 js_or_not_minus_1
      js_ushr_0 toUint32_toInt32 toUint32_id)

lemma longToIp_cong: "x mod 4294967296 = y mod 4294967296 \<Longrightarrow> longToIp x = longToIp y"
  by (simp add: longToIp_bytes byteOf_def)

lemma longToIp_mod_plus: "longToIp (x mod 4294967296 + k) = longToIp (x + k)"
  by (rule longToIp_cong) (simp add: mod_add_left_eq)

lemma calculateSubnet_fields:
  assumes "isValidIp ip"
  shows "networkAddress (calculateSubnet ip cidr p) = longToIp (calc_networkLong ip cidr)"
    and "broadcastAddress (calculateSubnet ip cidr p) = longToIp (calc_broadcastLong ip cidr)"
    and "subnetMask (calculateSubnet ip cidr p) = longToIp (calc_maskLong cidr)"
    and "hostBits (calculateSubnet ip cidr p) = 32 - cidr"
    and "firstHost (calculateSubnet ip cidr p) =
           (if cidr < 31 then longToIp (calc_networkLong ip cidr + 1) else ''N/A'')"
    and "lastHost (calculateSubnet ip cidr p) =
           (if cidr < 31 then longToIp (calc_broadcastLong ip cidr - 1) else ''N/A'')"
    and "hostsPerSubnet (calculateSubnet ip cidr p) = max 0 (2 ^ nat (32 - cidr) - 2)"
  using assms
  by (simp_all add: calculateSubnet_def Let_def longToIp_js_ushr_0 js_pow2_def max_def)

text \<open>
  C8. For a valid address and a prefix length in 0..32: \<open>hostBits = 32 - cidr\<close>;
  \<open>hostsPerSubnet = max 0 (2^hostBits - 2)\<close>; below prefix 31 \<open>firstHost\<close> is the
  text of the network address plus one and \<open>lastHost\<close> the text of the broadcast
  address minus one; from prefix 31 on both are \<open>N/A\<close>. At prefix 24 there are 254
  hosts, at 31 none, and at 32 network and broadcast address are the address itself.
\<close>

theorem calculateSubnet_hosts:
  assumes "isValidIp ip" and "0 \<le> cidr" and "cidr \<le> 32"
  shows "hostBits (calculateSubnet ip cidr p) = 32 - cidr
       \<and> hostsPerSubnet (calculateSubnet ip cidr p) =
           max 0 (2 ^ nat (hostBits (calculateSubnet ip cidr p)) - 2)
       \<and> (cidr < 31 \<longrightarrow>
            firstHost (calculateSubnet ip cidr p) =
              longToIp (ipToLong (networkAddress (calculateSubnet ip cidr p)) + 1)
          \<and> lastHost (calculateSubnet ip cidr p) =
              longToIp (ipToLong (broadcastAddress (calculateSubnet ip cidr p)) - 1))
       \<and> (cidr \<ge> 31 \<longrightarrow>
            firstHost (calculateSubnet ip cidr p) = ''N/A''
          \<and> lastHost (calculateSubnet ip cidr p) = ''N/A'')
       \<and> (cidr = 24 \<longrightarrow> hostsPerSubnet (calculateSubnet ip cidr p) = 254)
       \<and> (cidr = 31 \<longrightarrow> hostsPerSubnet (calculateSubnet ip cidr p) = 0)
       \<and> (cidr = 32 \<longrightarrow>
            networkAddress (calculateSubnet ip cidr p) = ip
          \<and> broadcastAddress (calculateSubnet ip cidr p) = ip)"
proof -
  note f = calculateSubnet_fields [OF assms(1), of cidr p]
  have fh: "longToIp (ipToLong (longToIp (calc_networkLong ip cidr)) + 1) =
            longToIp (calc_networkLong ip cidr + 1)"
    by (simp add: ipToLong_longToIp longToIp_mod_plus)
  have lh: "longToIp (ipToLong (longToIp (calc_broadcastLong ip cidr)) - 1) =
            longToIp (calc_broadcastLong ip cidr - 1)"
    using longToIp_mod_plus [of "calc_broadcastLong ip cidr" "- 1"]
    by (simp add: ipToLong_longToIp)
  have c32: "cidr = 32 \<longrightarrow>
            networkAddress (calculateSubnet ip cidr p) = ip
          \<and> broadcastAddress (calculateSubnet ip cidr p) = ip"
    using assms(1)
    by (simp add: calculateSubnet_fields calc_networkLong_32 calc_broadcastLong_32
        longToIp_ipToLong)
  have hp: "hostsPerSubnet (calculateSubnet ip cidr p) =
           max 0 (2 ^ nat (hostBits (calculateSubnet ip cidr p)) - 2)"
    by (simp only: f)
  have c24: "cidr = 24 \<longrightarrow> hostsPerSubnet (calculateSubnet ip cidr p) = 254"
    using assms(1) by (simp add: calculateSubnet_fields)
  have c31: "cidr = 31 \<longrightarrow> hostsPerSubnet (calculateSubnet ip cidr p) = 0"
    using assms(1) by (simp add: calculateSubnet_fields)
  have na: "cidr \<ge> 31 \<longrightarrow>
            firstHost (calculateSubnet ip cidr p) = ''N/A''
          \<and> lastHost (calculateSubnet ip cidr p) = ''N/A''"
    by (simp add: f)
  have hosts: "cidr < 31 \<longrightarrow>
            firstHost (calculateSubnet ip cidr p) =
              longToIp (ipToLong (networkAddress (calculateSubnet ip cidr p)) + 1)
          \<and> lastHost (calculateSubnet ip cidr p) =
              longToIp (ipToLong (broadcastAddress (calculateSubnet ip cidr p)) - 1)"
    by (simp add: f fh lh)
  show ?thesis
    using f(4) hp hosts na c24 c31 c32 by blast
qed

theorem calculateSubnet_hosts_witness:
  "isValidIp ''192.168.1.10''
   \<and> hostBits (calculateSubnet ''192.168.1.10'' 26 (Some 24)) = 6
   \<and> hostsPerSubnet (calculateSubnet ''192.168.1.10'' 26 (Some 24)) = 62
   \<and> networkAddress (calculateSubnet ''192.168.1.10'' 26 (Some 24)) = ''192.168.1.0''
   \<and> broadcastAddress (calculateSubnet ''192.168.1.10'' 26 (Some 24)) = ''192.168.1.63''
   \<and> firstHost (calculateSubnet ''192.168.1.10'' 26 (Some 24)) = ''192.168.1.1''
   \<and> lastHost (calculateSubnet ''192.168.1.10'' 26 (Some 24)) = ''192.168.1.62''
   \<and> firstHost (calculateSubnet ''192.168.1.10'' 31 None) = ''N/A''
   \<and> hostsPerSubnet (calculateSubnet ''192.168.1.10'' 31 None) = 0
   \<and> networkAddress (calculateSubnet ''192.168.1.10'' 32 None) = ''192.168.1.10''"
proof -
  have v: "isValidIp ''192.168.1.10''" by code_simp
  have n: "calc_networkLong ''192.168.1.10'' 26 = 3232235776" by code_simp
  have b: "calc_broadcastLong ''192.168.1.10'' 26 = 3232235839" by code_simp
  have nt: "longToIp 3232235776 = ''192.168.1.0''" by code_simp
  have bt: "longToIp 3232235839 = ''192.168.1.63''" by code_simp
  have ft: "longToIp 3232235777 = ''192.168.1.1''" by code_simp
  have lt: "longToIp 3232235838 = ''192.168.1.62''" by code_simp
  note f = calculateSubnet_fields [OF v]
  have na: "networkAddress (calculateSubnet ''192.168.1.10'' 26 (Some 24)) = ''192.168.1.0''"
    by (simp add: f n nt)
  have ba: "broadcastAddress (calculateSubnet ''192.168.1.10'' 26 (Some 24)) = ''192.168.1.63''"
    by (simp add: f b bt)
  have i1: "ipToLong ''192.168.1.0'' = 3232235776" by code_simp
  have i2: "ipToLong ''192.168.1.63'' = 3232235839" by code_simp
  show ?thesis
    using v calculateSubnet_hosts [OF v, of 26 "Some 24"]
      calculateSubnet_hosts [OF v, of 31 None] calculateSubnet_hosts [OF v, of 32 None]
    by (simp add: na ba i1 i2 ft lt)
qed

section \<open>Rejected input\<close>

text \<open>
  C3, as the code has it. For a string that \<open>isValidIp\<close> rejects, \<open>calculateSubnet\<close>
  returns the record with \<open>isValid = False\<close> in which \<open>ip\<close> and \<open>cidr\<close> repeat the
  arguments, \<open>networkClass\<close> is \<open>-\<close>, every other number is 0 and every other string
  is empty; \<open>generateSubnetTable\<close> returns no rows, \<open>totalCount = 0\<close> and
  \<open>truncated = False\<close> for such a string, and also whenever \<open>cidr < baseCidr\<close>.
\<close>

theorem invalid_input_results:
  "(\<not> isValidIp ip \<longrightarrow>
      calculateSubnet ip cidr parentCidr =
        \<lparr>ip_field = ip, cidr_field = cidr, subnetMask = [], networkAddress = [],
         broadcastAddress = [], firstHost = [], lastHost = [], hostsPerSubnet = 0,
         hostBits = 0, borrowedBits = 0, subnetsCreated = 0, networkClass = ''-'',
         defaultCidr = 0, baseCidr_field = 0, binaryIp = [], binaryMask = [],
         binaryNet = [], isValid = False\<rparr>)
   \<and> (\<not> isValidIp ip \<or> cidr < baseCidr \<longrightarrow>
      generateSubnetTable ip cidr baseCidr limit =
        \<lparr>rows = [], totalCount = 0, truncated = False\<rparr>)"
  by (simp add: calculateSubnet_def generateSubnetTable_def)

theorem invalid_input_results_witness:
  "\<not> isValidIp ''a.b.c.d''
   \<and> isValid (calculateSubnet ''a.b.c.d'' 24 None) = False
   \<and> hostsPerSubnet (calculateSubnet ''a.b.c.d'' 24 None) = 0
   \<and> networkAddress (calculateSubnet ''a.b.c.d'' 24 None) = []
   \<and> rows (generateSubnetTable ''a.b.c.d'' 26 24 256) = []
   \<and> isValidIp ''192.168.1.10''
   \<and> generateSubnetTable ''192.168.1.10'' 24 26 256 =
        \<lparr>rows = [], totalCount = 0, truncated = False\<rparr>"
proof -
  have i: "\<not> isValidIp ''a.b.c.d''" by code_simp
  have v: "isValidIp ''192.168.1.10''" by code_simp
  show ?thesis
    using i v invalid_input_results [of "''a.b.c.d''" 24 None 24 256]
      invalid_input_results [of "''192.168.1.10''" 24 None 26 256]
      invalid_input_results [of "''a.b.c.d''" 26 None 24 256]
    by simp
qed

text \<open>
  The claim as the specification words it fails: for the rejected string \<open>a.b.c.d\<close>
  and prefix 24 the numeric field \<open>cidr\<close> is 24 and the string fields \<open>ip\<close> and
  \<open>networkClass\<close> are not empty.
\<close>

theorem invalid_input_counterexample:
  "\<not> isValidIp ''a.b.c.d''
   \<and> cidr_field (calculateSubnet ''a.b.c.d'' 24 None) \<noteq> 0
   \<and> ip_field (calculateSubnet ''a.b.c.d'' 24 None) \<noteq> []
   \<and> networkClass (calculateSubnet ''a.b.c.d'' 24 None) \<noteq> []"
proof -
  have i: "\<not> isValidIp ''a.b.c.d''" by code_simp
  then show ?thesis by (simp add: calculateSubnet_def)
qed

section \<open>Classification\<close>

lemma getIpCategory_refines:
  "(ipType (getIpCategory ip), rangeName (getIpCategory ip), minCidr (getIpCategory ip)) =
     spec_classify ip"
  by (simp add: getIpCategory_def spec_classify_def spec_inBlock_def dotted_def
      PRIVATE_RANGES_def Let_def)

lemma getIpCategory_isPrivate:
  "isPrivate (getIpCategory ip) \<longleftrightarrow> ipType (getIpCategory ip) = Private"
  by (simp add: getIpCategory_def PRIVATE_RANGES_def Let_def)

lemma getIpCategory_examples:
  "ipType (getIpCategory ''10.5.0.1'') = Private"
  "rangeName (getIpCategory ''10.5.0.1'') = Some ''10.0.0.0/8''"
  "minCidr (getIpCategory ''10.5.0.1'') = Some 8"
  "ipType (getIpCategory ''8.8.8.8'') = Public"
  "ipType (getIpCategory ''127.0.0.1'') = Loopback"
  "ipType (getIpCategory ''169.254.1.1'') = LinkLocal"
  "ipType (getIpCategory ''100.64.0.1'') = CGNAT"
  "ipType (getIpCategory ''224.0.0.1'') = Multicast"
  by code_simp+

text \<open>
  C6. \<open>getIpCategory\<close> classifies a string as the specification orders the blocks:
  the three private ranges with their names and minimum prefixes, then loopback,
  link-local, carrier-grade NAT, multicast, reserved, otherwise public, and \<open>Unknown\<close>
  for a string that is not a valid address; the six listed addresses fall where the
  specification puts them.
\<close>

theorem getIpCategory_classifies:
  "(ipType (getIpCategory ip), rangeName (getIpCategory ip), minCidr (getIpCategory ip)) =
     spec_classify ip
   \<and> (isPrivate (getIpCategory ip) \<longleftrightarrow> ipType (getIpCategory ip) = Private)
   \<and> ipType (getIpCategory ''10.5.0.1'') = Private
   \<and> rangeName (getIpCategory ''10.5.0.1'') = Some ''10.0.0.0/8''
   \<and> minCidr (getIpCategory ''10.5.0.1'') = Some 8
   \<and> ipType (getIpCategory ''8.8.8.8'') = Public
   \<and> ipType (getIpCategory ''127.0.0.1'') = Loopback
   \<and> ipType (getIpCategory ''169.254.1.1'') = LinkLocal
   \<and> ipType (getIpCategory ''100.64.0.1'') = CGNAT
   \<and> ipType (getIpCategory ''224.0.0.1'') = Multicast"
  using getIpCategory_refines [of ip] getIpCategory_isPrivate [of ip] getIpCategory_examples
  by blast

theorem getIpCategory_classifies_witness:
  "spec_classify ''172.20.1.1'' = (Private, Some ''172.16.0.0/12'', Some 12)
   \<and> isPrivate (getIpCategory ''172.20.1.1'')
   \<and> spec_classify ''1.2.3'' = (Unknown, None, None)"
proof -
  have a: "ipType (getIpCategory ''172.20.1.1'') = Private" by code_simp
  have b: "rangeName (getIpCategory ''172.20.1.1'') = Some ''172.16.0.0/12''" by code_simp
  have c: "minCidr (getIpCategory ''172.20.1.1'') = Some 12" by code_simp
  have d: "ipType (getIpCategory ''1.2.3'') = Unknown" by code_simp
  have e: "rangeName (getIpCategory ''1.2.3'') = None" by code_simp
  have f: "minCidr (getIpCategory ''1.2.3'') = None" by code_simp
  show ?thesis
    using getIpCategory_classifies [of "''172.20.1.1''"] getIpCategory_classifies [of "''1.2.3''"]
    by (simp add: a b c d e f)
qed

section \<open>Masks\<close>

lemma and_not_mask_int: "(x::int) AND NOT (mask k) = x - x mod 2 ^ k"
proof -
  have d: "(x AND mask k) AND (x AND NOT (mask k)) = 0"
    by (auto simp add: bit_eq_iff bit_simps)
  have o: "(x AND mask k) OR (x AND NOT (mask k)) = x"
    by (auto simp add: bit_eq_iff bit_simps)
  have "(x AND mask k) + (x AND NOT (mask k)) = x"
    using disjunctive_add_eq_or [OF d] o by simp
  moreover have "x AND mask k = x mod 2 ^ k"
    by (simp add: take_bit_eq_mask [symmetric] take_bit_eq_mod)
  ultimately show ?thesis by simp
qed

lemma and_minus_exp_int: "(x::int) AND - (2 ^ k) = x - x mod 2 ^ k"
  by (simp only: minus_exp_eq_not_mask and_not_mask_int)

lemma or_mask_int:
  assumes "(x::int) mod 2 ^ k = 0"
  shows "x OR (2 ^ k - 1) = x + 2 ^ k - 1"
proof -
  have m: "(2::int) ^ k - 1 = mask k" by (simp add: mask_eq_exp_minus_1)
  have "x AND mask k = 0"
    using assms by (simp add: take_bit_eq_mask [symmetric] take_bit_eq_mod)
  then have "x + mask k = x OR mask k" by (rule disjunctive_add_eq_or)
  then have "x OR (2 ^ k - 1) = x + (2 ^ k - 1)" unfolding m by simp
  then show ?thesis by simp
qed

lemma not_minus_exp_int: "NOT (- ((2::int) ^ k)) = 2 ^ k - 1"
  by (simp add: not_int_def)

lemma pow2_le_2_31: "k \<le> 31 \<Longrightarrow> (2::int) ^ k \<le> 2147483648"
  using power_increasing [of k 31 "2::int"] by simp

lemma pow2_le_2_32: "k \<le> 32 \<Longrightarrow> (2::int) ^ k \<le> 4294967296"
  using power_increasing [of k 32 "2::int"] by simp

lemma pow2_dvd_2_32: "k \<le> 32 \<Longrightarrow> (2::int) ^ k dvd 4294967296"
  using le_imp_power_dvd [of k 32 "2::int"] by simp

lemma mod_pow2_of_mod_2_32: "k \<le> 32 \<Longrightarrow> (y::int) mod 4294967296 mod 2 ^ k = y mod 2 ^ k"
  by (rule mod_mod_cancel) (rule pow2_dvd_2_32)

lemma toInt32_mod_pow2: "k \<le> 32 \<Longrightarrow> toInt32 x mod 2 ^ k = x mod 2 ^ k"
  using mod_pow2_of_mod_2_32 [of k "toInt32 x"] mod_pow2_of_mod_2_32 [of k x]
  by (simp only: toInt32_cong)

lemma toInt32_minus_pow2:
  assumes "k \<le> 31"
  shows "toInt32 (- (2 ^ k)) = - (2 ^ k)"
proof (rule toInt32_id)
  have p: "(0::int) < 2 ^ k" by simp
  show "- (2 ^ 31) \<le> - ((2::int) ^ k)" using pow2_le_2_31 [OF assms] by simp
  have "- ((2::int) ^ k) < 0" by simp
  also have "(0::int) < 2 ^ 31" by simp
  finally show "- ((2::int) ^ k) < 2 ^ 31" .
qed

text \<open>The shift \<^verbatim>\<open>-1 << (32 - cidr)\<close> for a prefix from 1 to 32.\<close>

lemma js_shl_ones:
  assumes "1 \<le> cidr" "cidr \<le> 32"
  shows "js_shl (- 1) (32 - cidr) = - (2 ^ nat (32 - cidr))"
proof -
  have "toUint32 (32 - cidr) = 32 - cidr"
    unfolding toUint32_def using assms by (intro mod_pos_pos_trivial) auto
  moreover have "(32 - cidr) mod 32 = 32 - cidr"
    using assms by (intro mod_pos_pos_trivial) auto
  ultimately have c: "toUint32 (32 - cidr) mod 32 = 32 - cidr" by simp
  have "nat (32 - cidr) \<le> 31" using assms by simp
  then show ?thesis
    unfolding js_shl_def c by (simp add: toInt32_minus_1 toInt32_minus_pow2)
qed

text \<open>And for prefix 0: the count 32 is taken modulo 32, so nothing is shifted.\<close>

lemma js_shl_ones_0: "js_shl (- 1) (32 - 0) = - 1"
  by (simp add: js_shl_def toInt32_def toUint32_def)

lemma toInt32_toUint32: "toInt32 (toUint32 x) = toInt32 x"
  by (simp add: toInt32_def toUint32_def)

lemma mod_cong_diff:
  fixes a b :: int
  shows "a mod m = b mod m \<Longrightarrow> (a - r) mod m = (b - r) mod m"
  by (metis mod_diff_left_eq)

lemma toUint32_and_minus_pow2:
  assumes "0 \<le> a" "a < 4294967296" "k \<le> 31"
  shows "toUint32 (js_and a (- (2 ^ k))) = a - a mod 2 ^ k"
proof -
  have "js_and a (- (2 ^ k)) = toInt32 a - a mod 2 ^ k"
    using assms(3) by (simp add: js_and_def toInt32_minus_pow2 and_minus_exp_int toInt32_mod_pow2)
  then have "toUint32 (js_and a (- (2 ^ k))) = (toInt32 a - a mod 2 ^ k) mod 4294967296"
    by (simp add: toUint32_def)
  also have "\<dots> = (a - a mod 2 ^ k) mod 4294967296"
    by (rule mod_cong_diff) (rule toInt32_cong)
  also have "\<dots> = a - a mod 2 ^ k"
  proof (rule mod_pos_pos_trivial)
    have "a mod 2 ^ k \<le> a" using assms(1) by (simp add: zmod_le_nonneg_dividend)
    then show "0 \<le> a - a mod 2 ^ k" by simp
    have "0 \<le> a mod 2 ^ k" by simp
    then show "a - a mod 2 ^ k < 4294967296" using assms(2) by linarith
  qed
  finally show ?thesis .
qed

lemma network_bounds:
  fixes a :: int
  assumes "0 \<le> a" "a < 4294967296" "k \<le> 32"
  shows "0 \<le> a - a mod 2 ^ k" "a - a mod 2 ^ k + 2 ^ k \<le> 4294967296"
    "(a - a mod 2 ^ k) mod 2 ^ k = 0"
proof -
  have "a mod 2 ^ k \<le> a" using assms(1) by (simp add: zmod_le_nonneg_dividend)
  then show "0 \<le> a - a mod 2 ^ k" by simp
  show z: "(a - a mod 2 ^ k) mod 2 ^ k = 0" by (simp add: mod_diff_right_eq)
  obtain q :: int where q: "4294967296 = 2 ^ k * q"
    using pow2_dvd_2_32 [OF assms(3)] by (auto simp: dvd_def)
  have a: "a - a mod 2 ^ k = 2 ^ k * (a div 2 ^ k)"
    by (simp add: minus_mod_eq_mult_div)
  have nn: "0 \<le> a mod 2 ^ k" by simp
  have "2 ^ k * (a div 2 ^ k) < 4294967296"
    using a nn assms(2) by linarith
  then have "2 ^ k * (a div 2 ^ k) < 2 ^ k * q"
    using q by linarith
  then have "a div 2 ^ k < q" by (simp add: mult_less_cancel_left_pos)
  then have "a div 2 ^ k + 1 \<le> q" by simp
  then have "2 ^ k * (a div 2 ^ k + 1) \<le> 2 ^ k * q"
    by (simp add: mult_le_cancel_left_pos)
  then show "a - a mod 2 ^ k + 2 ^ k \<le> 4294967296"
    unfolding a q by (simp add: algebra_simps)
qed

lemma toUint32_or_pow2_minus_1:
  assumes "0 \<le> n" "n + 2 ^ k \<le> 4294967296" "n mod 2 ^ k = 0" "k \<le> 31"
  shows "toUint32 (js_or n (2 ^ k - 1)) = n + 2 ^ k - 1"
proof -
  have p: "(0::int) < 2 ^ k" by simp
  have t: "toInt32 (2 ^ k - 1) = 2 ^ k - 1"
  proof (rule toInt32_id)
    have "- (2 ^ 31) \<le> (0::int)" by simp
    also have "(0::int) \<le> 2 ^ k - 1" by simp
    finally show "- (2 ^ 31) \<le> (2::int) ^ k - 1" .
    show "(2::int) ^ k - 1 < 2 ^ 31" using pow2_le_2_31 [OF assms(4)] by simp
  qed
  have "toInt32 n mod 2 ^ k = 0" using assms(3,4) by (simp add: toInt32_mod_pow2)
  then have "js_or n (2 ^ k - 1) = toInt32 n + (2 ^ k - 1)"
    by (simp add: js_or_def t or_mask_int)
  then have "toUint32 (js_or n (2 ^ k - 1)) = (toInt32 n + (2 ^ k - 1)) mod 4294967296"
    by (simp only: toUint32_def) simp
  also have "\<dots> = (n + (2 ^ k - 1)) mod 4294967296"
    by (rule mod_cong_add) (rule toInt32_cong)
  also have "\<dots> = n + (2 ^ k - 1)"
    using assms(1,2) p by (intro mod_pos_pos_trivial) auto
  finally show ?thesis by simp
qed

section \<open>Mask, network and broadcast address\<close>

lemma js_and_toUint32: "js_and a (toUint32 x) = js_and a x"
  by (simp add: js_and_def toInt32_toUint32)

lemma js_not_toUint32: "js_not (toUint32 x) = js_not x"
  by (simp add: js_not_def toInt32_toUint32)

lemma js_not_minus_pow2: "k \<le> 31 \<Longrightarrow> js_not (- (2 ^ k)) = 2 ^ k - 1"
  by (simp add: js_not_def toInt32_minus_pow2 not_minus_exp_int)

text \<open>Closed forms of what the code computes, for a prefix from 1 to 32.\<close>

lemma code_network:
  assumes "0 \<le> a" "a < 4294967296" "1 \<le> cidr" "cidr \<le> 32"
  shows "toUint32 (js_and a (js_shl (- 1) (32 - cidr))) = a - a mod 2 ^ nat (32 - cidr)"
proof -
  have k: "nat (32 - cidr) \<le> 31" using assms by simp
  show ?thesis
    unfolding js_shl_ones [OF assms(3,4)]
    by (rule toUint32_and_minus_pow2 [OF assms(1,2) k])
qed

lemma code_broadcast:
  assumes "0 \<le> a" "a < 4294967296" "1 \<le> cidr" "cidr \<le> 32"
  shows "toUint32 (js_or (a - a mod 2 ^ nat (32 - cidr)) (js_not (js_shl (- 1) (32 - cidr)))) =
         a - a mod 2 ^ nat (32 - cidr) + 2 ^ nat (32 - cidr) - 1"
proof -
  have k: "nat (32 - cidr) \<le> 31" using assms by simp
  then have k': "nat (32 - cidr) \<le> 32" by simp
  show ?thesis
    unfolding js_shl_ones [OF assms(3,4)] js_not_minus_pow2 [OF k]
    by (rule toUint32_or_pow2_minus_1 [OF network_bounds [OF assms(1,2) k'] k])
qed

lemma calc_networkLong_closed:
  assumes "isValidIp ip" "1 \<le> cidr" "cidr \<le> 32"
  shows "calc_networkLong ip cidr = ipToLong ip - ipToLong ip mod 2 ^ nat (32 - cidr)"
  using isValidIp_ipToLong_range [OF assms(1)] assms(2,3)
  by (simp add: calc_networkLong_def calc_maskLong_def js_ushr_0 code_network)

lemma calc_broadcastLong_closed:
  assumes "isValidIp ip" "1 \<le> cidr" "cidr \<le> 32"
  shows "calc_broadcastLong ip cidr =
         ipToLong ip - ipToLong ip mod 2 ^ nat (32 - cidr) + 2 ^ nat (32 - cidr) - 1"
  using isValidIp_ipToLong_range [OF assms(1)] assms(2,3)
  by (simp add: calc_broadcastLong_def calc_networkLong_closed [OF assms] calc_maskLong_def
      js_ushr_0 code_broadcast)

text \<open>Closed forms of the specification's mask, network and broadcast address.\<close>

lemma spec_mask_closed:
  assumes "0 \<le> cidr" "cidr \<le> 32"
  shows "spec_mask cidr = 4294967296 - 2 ^ nat (32 - cidr)"
proof -
  define k where "k = nat (32 - cidr)"
  have k: "k \<le> 32" using assms by (simp add: k_def)
  have p: "(1::int) \<le> 2 ^ k" by simp
  have "push_bit k (4294967295::int) = (4294967296 - 2 ^ k) + (2 ^ k - 1) * 4294967296"
    by (simp add: push_bit_eq_mult algebra_simps)
  then have "push_bit k (4294967295::int) mod 4294967296 = (4294967296 - 2 ^ k) mod 4294967296"
    by (simp only: mod_mult_self1)
  also have "\<dots> = 4294967296 - 2 ^ k"
    using p pow2_le_2_32 [OF k] by (intro mod_pos_pos_trivial) linarith+
  finally show ?thesis
    by (simp add: spec_mask_def toUint32_def k_def)
qed

lemma and_high_mask:
  fixes a :: int
  assumes "0 \<le> a" "a < 4294967296" "k \<le> 32"
  shows "a AND (4294967296 - 2 ^ k) = a - a mod 2 ^ k"
proof -
  have "push_bit k (mask (32 - k) :: int) = mask 32 AND NOT (mask k)"
    using assms(3) by (simp add: push_bit_mask_eq)
  moreover have "push_bit k (mask (32 - k) :: int) = 4294967296 - 2 ^ k"
  proof -
    have "(2::int) ^ (32 - k) * 2 ^ k = 2 ^ 32"
      using assms(3) by (simp add: power_add [symmetric])
    then show ?thesis
      by (simp add: push_bit_eq_mult mask_eq_exp_minus_1 algebra_simps)
  qed
  ultimately have "a AND (4294967296 - 2 ^ k) = (a AND mask 32) AND NOT (mask k)"
    by (simp add: and.assoc)
  also have "a AND mask 32 = a"
    using assms(1,2) by (simp add: take_bit_eq_mask [symmetric] take_bit_eq_mod)
  finally show ?thesis by (simp add: and_not_mask_int)
qed

lemma spec_network_closed:
  assumes "0 \<le> a" "a < 4294967296" "0 \<le> cidr" "cidr \<le> 32"
  shows "spec_network a cidr = a - a mod 2 ^ nat (32 - cidr)"
proof -
  have "nat (32 - cidr) \<le> 32" using assms by simp
  then show ?thesis
    unfolding spec_network_def spec_mask_closed [OF assms(3,4)]
    by (rule and_high_mask [OF assms(1,2)])
qed

lemma spec_broadcast_closed:
  assumes "0 \<le> a" "a < 4294967296" "0 \<le> cidr" "cidr \<le> 32"
  shows "spec_broadcast a cidr =
         a - a mod 2 ^ nat (32 - cidr) + 2 ^ nat (32 - cidr) - 1"
proof -
  define k where "k = nat (32 - cidr)"
  have k: "k \<le> 32" using assms by (simp add: k_def)
  have p: "(1::int) \<le> 2 ^ k" by simp
  have "NOT (4294967296 - (2::int) ^ k) = (2 ^ k - 1) + (- 1) * 4294967296"
    by (simp add: not_int_def)
  then have "NOT (4294967296 - (2::int) ^ k) mod 4294967296 = (2 ^ k - 1) mod 4294967296"
    by (simp only: mod_mult_self1)
  also have "\<dots> = 2 ^ k - 1"
    using p pow2_le_2_32 [OF k] by (intro mod_pos_pos_trivial) linarith+
  finally have n: "toUint32 (NOT (spec_mask cidr)) = 2 ^ k - 1"
    by (simp add: toUint32_def spec_mask_closed [OF assms(3,4)] k_def)
  show ?thesis
    unfolding spec_broadcast_def n spec_network_closed [OF assms] k_def [symmetric]
    by (rule or_mask_int) (rule network_bounds(3) [OF assms(1,2) k])
qed

text \<open>
  From prefix 1 to 32 the code computes the mask, the network and the broadcast address
  of the specification.
\<close>

lemma calculateSubnet_mask_from_1:
  assumes "isValidIp ip" "1 \<le> cidr" "cidr \<le> 32"
  shows "toUint32 (calc_maskLong cidr) = spec_mask cidr"
    and "calc_networkLong ip cidr = spec_network (ipToLong ip) cidr"
    and "calc_broadcastLong ip cidr = spec_broadcast (ipToLong ip) cidr"
proof -
  have c: "0 \<le> cidr" using assms(2) by simp
  note r = isValidIp_ipToLong_range [OF assms(1)]
  have k: "nat (32 - cidr) \<le> 32" using c by simp
  have p: "(1::int) \<le> 2 ^ nat (32 - cidr)" by simp
  have "(- (2 ^ nat (32 - cidr))) mod 4294967296 =
        (- (2 ^ nat (32 - cidr)) + 4294967296) mod (4294967296::int)"
    by simp
  also have "\<dots> = - (2 ^ nat (32 - cidr)) + 4294967296"
    using p pow2_le_2_32 [OF k] by (intro mod_pos_pos_trivial) linarith+
  finally have "(- (2 ^ nat (32 - cidr))) mod 4294967296 =
                (4294967296 - 2 ^ nat (32 - cidr) :: int)"
    by simp
  then show "toUint32 (calc_maskLong cidr) = spec_mask cidr"
    by (simp add: calc_maskLong_def js_shl_ones [OF assms(2,3)] toUint32_def
        spec_mask_closed [OF c assms(3)])
  show "calc_networkLong ip cidr = spec_network (ipToLong ip) cidr"
    using r by (simp add: calc_networkLong_closed [OF assms] spec_network_closed c assms(3))
  show "calc_broadcastLong ip cidr = spec_broadcast (ipToLong ip) cidr"
    using r by (simp add: calc_broadcastLong_closed [OF assms] spec_broadcast_closed c assms(3))
qed

section \<open>Prefix 0\<close>

lemma checkPrivateOverlap_from_1:
  assumes "isValidIp ip" "1 \<le> cidr" "cidr \<le> 32"
  shows "checkPrivateOverlap ip cidr = spec_overlap (ipToLong ip) cidr"
proof -
  note r = isValidIp_ipToLong_range [OF assms(1)]
  have c: "0 \<le> cidr" using assms(2) by simp
  have s: "js_ushr (js_and (ipToLong ip) (js_ushr (js_shl (- 1) (32 - cidr)) 0)) 0 =
           spec_network (ipToLong ip) cidr"
    using r assms(2,3) c
    by (simp add: js_ushr_0 js_and_toUint32 code_network spec_network_closed)
  have e: "js_ushr (js_or (spec_network (ipToLong ip) cidr)
             (js_not (js_ushr (js_shl (- 1) (32 - cidr)) 0))) 0 =
           spec_broadcast (ipToLong ip) cidr"
    using r assms(2,3) c
    by (simp add: js_ushr_0 js_not_toUint32 code_broadcast spec_network_closed
        spec_broadcast_closed)
  show ?thesis
    using assms(1)
    by (simp add: checkPrivateOverlap_def Let_def s e spec_overlap_def spec_privateRanges_def
        PRIVATE_RANGES_def dotted_def)
qed

lemma spec_at_prefix_0:
  "spec_mask 0 = 0"
  "spec_network a 0 = 0"
  "spec_broadcast a 0 = 4294967295"
proof -
  show m: "spec_mask 0 = 0"
    by (simp add: spec_mask_def toUint32_def push_bit_eq_mult)
  show "spec_network a 0 = 0"
    by (simp add: spec_network_def m)
  show "spec_broadcast a 0 = 4294967295"
    by (simp add: spec_broadcast_def spec_network_def m toUint32_def)
qed

lemma code_at_prefix_0:
  "calc_maskLong 0 = - 1"
  "isValidIp ip \<Longrightarrow> calc_networkLong ip 0 = ipToLong ip"
  "isValidIp ip \<Longrightarrow> calc_broadcastLong ip 0 = ipToLong ip"
proof -
  show m: "calc_maskLong 0 = - 1"
    using js_shl_ones_0 by (simp add: calc_maskLong_def)
  assume v: "isValidIp ip"
  note r = isValidIp_ipToLong_range [OF v]
  show n: "calc_networkLong ip 0 = ipToLong ip"
    using r by (simp add: calc_networkLong_def m js_and_minus_1 js_ushr_0 toUint32_toInt32
        toUint32_id)
  show "calc_broadcastLong ip 0 = ipToLong ip"
    using r by (simp add: calc_broadcastLong_def n m js_or_not_minus_1 js_ushr_0
        toUint32_toInt32 toUint32_id)
qed

text \<open>
  C1. The specification asks, for every valid address and every prefix length in
  0..32, for the mask of all ones shifted left by \<open>32 - cidr\<close> bits (0 at prefix 0),
  the network \<open>a AND mask\<close> and the broadcast address \<open>network OR NOT mask\<close>. The code
  computes these from prefix 1 on (\<open>calculateSubnet_mask_from_1\<close>). At prefix 0 the
  shift count 32 is taken modulo 32: for \<open>192.168.1.10\<close> the code returns mask
  \<open>255.255.255.255\<close> and the address itself as network and as broadcast address,
  where the specification has \<open>0.0.0.0\<close>, \<open>0.0.0.0\<close> and \<open>255.255.255.255\<close>.
\<close>

theorem calculateSubnet_prefix_0:
  "isValidIp ''192.168.1.10''
   \<and> subnetMask (calculateSubnet ''192.168.1.10'' 0 None) = ''255.255.255.255''
   \<and> networkAddress (calculateSubnet ''192.168.1.10'' 0 None) = ''192.168.1.10''
   \<and> broadcastAddress (calculateSubnet ''192.168.1.10'' 0 None) = ''192.168.1.10''
   \<and> longToIp (spec_mask 0) = ''0.0.0.0''
   \<and> longToIp (spec_network (ipToLong ''192.168.1.10'') 0) = ''0.0.0.0''
   \<and> longToIp (spec_broadcast (ipToLong ''192.168.1.10'') 0) = ''255.255.255.255''"
proof -
  have v: "isValidIp ''192.168.1.10''" by code_simp
  have z: "longToIp 0 = ''0.0.0.0''" by code_simp
  have o: "longToIp (- 1) = ''255.255.255.255''" by code_simp
  have o': "longToIp 4294967295 = ''255.255.255.255''" by code_simp
  show ?thesis
    using v
    by (simp add: calculateSubnet_fields code_at_prefix_0 spec_at_prefix_0 z o o'
        longToIp_ipToLong)
qed

text \<open>
  C7. The specification asks, for every valid address and every prefix length, for the
  first RFC 1918 range that meets the span from \<open>a AND mask\<close> to its broadcast address.
  The code returns it from prefix 1 on (\<open>checkPrivateOverlap_from_1\<close>), so
  \<open>11.0.0.1\<close> with prefix 7 overlaps \<open>10.0.0.0/8\<close>. At prefix 0 the mask is all
  ones and the span is the address alone: for \<open>8.8.8.8\<close> the code reports no overlap,
  where the network \<open>0.0.0.0/0\<close> of the specification meets \<open>10.0.0.0/8\<close>.
\<close>

theorem checkPrivateOverlap_prefix_0:
  "isValidIp ''8.8.8.8''
   \<and> checkPrivateOverlap ''8.8.8.8'' 0 = None
   \<and> spec_overlap (ipToLong ''8.8.8.8'') 0 = Some ''10.0.0.0/8''
   \<and> checkPrivateOverlap ''11.0.0.1'' 7 = Some ''10.0.0.0/8''"
proof -
  have v: "isValidIp ''8.8.8.8''" by code_simp
  have c: "checkPrivateOverlap ''8.8.8.8'' 0 = None" by code_simp
  have s: "spec_overlap (ipToLong ''8.8.8.8'') 0 = Some ''10.0.0.0/8''"
    by (simp add: spec_overlap_def spec_at_prefix_0 spec_privateRanges_def dotted_def)
  have e: "checkPrivateOverlap ''11.0.0.1'' 7 = Some ''10.0.0.0/8''" by code_simp
  show ?thesis using v c s e by simp
qed

section \<open>The enumeration loop\<close>

lemma table_loop_map:
  "table_loop ip cidr baseCidr loopLimit i =
     map (table_row ip cidr baseCidr) [i..loopLimit - 1]"
proof (induction ip cidr baseCidr loopLimit i rule: table_loop.induct)
  case (1 ip cidr baseCidr loopLimit i)
  show ?case
  proof (cases "i < loopLimit")
    case True
    then have "[i..loopLimit - 1] = i # [i + 1..loopLimit - 1]"
      by (simp add: upto_rec1)
    with True 1 show ?thesis
      by (subst table_loop.simps) simp
  next
    case False
    then show ?thesis
      by (subst table_loop.simps) simp
  qed
qed

lemma table_loop_length:
  "length (table_loop ip cidr baseCidr loopLimit 0) = nat loopLimit"
  by (simp add: table_loop_map)

lemma table_loop_nth:
  "n < nat loopLimit \<Longrightarrow>
   table_loop ip cidr baseCidr loopLimit 0 ! n = table_row ip cidr baseCidr (int n)"
  by (simp add: table_loop_map)

lemma rows_generateSubnetTable:
  "rows (generateSubnetTable ip cidr baseCidr limit) =
     (if \<not> isValidIp ip \<or> cidr < baseCidr then []
      else table_loop ip cidr baseCidr (min (js_pow2 (cidr - baseCidr)) limit) 0)"
  by (simp add: generateSubnetTable_def Let_def)

lemma rows_length:
  "length (rows (generateSubnetTable ip cidr baseCidr limit)) =
     (if \<not> isValidIp ip \<or> cidr < baseCidr then 0
      else nat (min (2 ^ nat (cidr - baseCidr)) limit))"
  by (simp add: rows_generateSubnetTable table_loop_length js_pow2_def)

lemma rows_nth:
  assumes "n < length (rows (generateSubnetTable ip cidr baseCidr limit))"
  shows "rows (generateSubnetTable ip cidr baseCidr limit) ! n =
         table_row ip cidr baseCidr (int n)"
proof -
  from assms have v: "\<not> (\<not> isValidIp ip \<or> cidr < baseCidr)"
    by (auto simp: rows_length split: if_splits)
  then have "n < nat (min (js_pow2 (cidr - baseCidr)) limit)"
    using assms by (simp add: rows_length js_pow2_def)
  then show ?thesis
    using v by (simp add: rows_generateSubnetTable table_loop_nth)
qed

lemma table_row_fields:
  "row_index (table_row ip cidr baseCidr i) = i + 1"
  "row_networkAddress (table_row ip cidr baseCidr i) =
     longToIp (table_currentNet ip cidr baseCidr i)"
  "row_broadcastAddress (table_row ip cidr baseCidr i) =
     longToIp (table_currentBroadcast ip cidr baseCidr i)"
  "row_range (table_row ip cidr baseCidr i) =
     (if cidr < 31
      then longToIp (table_currentNet ip cidr baseCidr i + 1) @ '' - '' @
           longToIp (table_currentBroadcast ip cidr baseCidr i - 1)
      else ''N/A'')"
  "isCurrent (table_row ip cidr baseCidr i) =
     (ipToLong ip \<ge> table_currentNet ip cidr baseCidr i
      \<and> ipToLong ip \<le> table_currentBroadcast ip cidr baseCidr i)"
  by (simp_all add: table_row_def Let_def longToIp_js_ushr_0)

lemma table_currentNet_range:
  "0 \<le> table_currentNet ip cidr baseCidr i"
  "table_currentNet ip cidr baseCidr i < 4294967296"
  by (simp_all add: table_currentNet_def js_ushr_0 toUint32_def)

lemma table_currentBroadcast_range:
  "0 \<le> table_currentBroadcast ip cidr baseCidr i"
  "table_currentBroadcast ip cidr baseCidr i < 4294967296"
  by (simp_all add: table_currentBroadcast_def js_ushr_0 toUint32_def)

lemma ipToLong_row_addresses:
  "ipToLong (row_networkAddress (table_row ip cidr baseCidr i)) =
     table_currentNet ip cidr baseCidr i"
  "ipToLong (row_broadcastAddress (table_row ip cidr baseCidr i)) =
     table_currentBroadcast ip cidr baseCidr i"
  using table_currentNet_range [of ip cidr baseCidr i]
    table_currentBroadcast_range [of ip cidr baseCidr i]
  by (simp_all add: table_row_fields ipToLong_longToIp)

text \<open>
  A number between a row's network and broadcast address: the row does not wrap, and
  the number is less than one increment above the network address.
\<close>

lemma in_row_no_wrap:
  fixes net inc x :: int
  assumes "0 \<le> net" "net < 4294967296" "1 \<le> inc" "inc \<le> 4294967296"
    and "net \<le> x" "x \<le> (net + inc - 1) mod 4294967296"
  shows "x < net + inc"
proof (cases "net + inc - 1 < 4294967296")
  case True
  then have "(net + inc - 1) mod 4294967296 = net + inc - 1"
    using assms(1,3) by (intro mod_pos_pos_trivial) auto
  with assms(6) show ?thesis by simp
next
  case False
  have "(net + inc - 1) mod 4294967296 = (net + inc - 1 - 4294967296) mod 4294967296"
    by (rule minus_mod_self2 [symmetric])
  also have "\<dots> = net + inc - 1 - 4294967296"
    using False assms(2,4) by (intro mod_pos_pos_trivial) auto
  finally have "x \<le> net + inc - 1 - 4294967296" using assms(6) by simp
  with assms(4,5) show ?thesis by linarith
qed

text \<open>Two rows at least one increment and less than \<open>2^32\<close> apart share no number.\<close>

lemma rows_apart:
  fixes b inc d x :: int
  assumes inc: "1 \<le> inc" "inc \<le> 4294967296"
    and d: "inc \<le> d" "d \<le> 4294967296 - inc"
    and i: "b mod 4294967296 \<le> x" "x \<le> (b mod 4294967296 + inc - 1) mod 4294967296"
    and j: "(b + d) mod 4294967296 \<le> x"
           "x \<le> ((b + d) mod 4294967296 + inc - 1) mod 4294967296"
  shows False
proof -
  define n where "n = b mod 4294967296"
  have n: "0 \<le> n" "n < 4294967296" by (simp_all add: n_def)
  have xi: "x < n + inc"
    using in_row_no_wrap [OF n inc] i by (simp add: n_def)
  have m: "(b + d) mod 4294967296 = (n + d) mod 4294967296"
    by (simp add: n_def mod_add_left_eq)
  have m0: "0 \<le> (n + d) mod 4294967296" "(n + d) mod 4294967296 < 4294967296"
    by simp_all
  have xj: "x < (n + d) mod 4294967296 + inc"
    using in_row_no_wrap [OF m0 inc] j by (simp add: m)
  show False
  proof (cases "n + d < 4294967296")
    case True
    then have "(n + d) mod 4294967296 = n + d"
      using n(1) d(1) inc(1) by (intro mod_pos_pos_trivial) auto
    then have "n + d \<le> x" using j(1) by (simp add: m)
    with xi d(1) show False by linarith
  next
    case False
    have "(n + d) mod 4294967296 = (n + d - 4294967296) mod 4294967296"
      by (rule minus_mod_self2 [symmetric])
    also have "\<dots> = n + d - 4294967296"
      using False n(2) d(2) inc(1) by (intro mod_pos_pos_trivial) auto
    finally have "x < n + d - 4294967296 + inc" using xj by simp
    with d(2) have "x < n" by linarith
    with i(1) show False by (simp add: n_def)
  qed
qed

section \<open>Current row\<close>

lemma table_currentNet_mod:
  "table_currentNet ip cidr baseCidr i =
     (table_baseNetworkLong ip baseCidr + i * 2 ^ nat (32 - cidr)) mod 4294967296"
  by (simp add: table_currentNet_def table_increment_def js_pow2_def js_ushr_0 toUint32_def)

lemma table_currentBroadcast_mod:
  "table_currentBroadcast ip cidr baseCidr i =
     (table_currentNet ip cidr baseCidr i + 2 ^ nat (32 - cidr) - 1) mod 4294967296"
  by (simp add: table_currentBroadcast_def table_increment_def js_pow2_def js_ushr_0
      toUint32_def)

lemma pow2_split_32:
  assumes "0 \<le> cidr" "cidr \<le> 32"
  shows "(2::int) ^ nat cidr * 2 ^ nat (32 - cidr) = 4294967296"
proof -
  have "nat cidr + nat (32 - cidr) = 32" using assms by simp
  then have "(2::int) ^ nat cidr * 2 ^ nat (32 - cidr) = 2 ^ 32"
    by (simp only: power_add [symmetric])
  then show ?thesis by simp
qed

lemma table_rows_disjoint:
  assumes c: "0 \<le> baseCidr" "baseCidr \<le> cidr" "cidr \<le> 32"
    and ij: "0 \<le> i" "i < j" "j < 2 ^ nat (cidr - baseCidr)"
    and ri: "table_currentNet ip cidr baseCidr i \<le> x"
            "x \<le> table_currentBroadcast ip cidr baseCidr i"
    and rj: "table_currentNet ip cidr baseCidr j \<le> x"
            "x \<le> table_currentBroadcast ip cidr baseCidr j"
  shows False
proof -
  define inc :: int where "inc = 2 ^ nat (32 - cidr)"
  define b where "b = table_baseNetworkLong ip baseCidr + i * inc"
  define d where "d = (j - i) * inc"
  have c0: "0 \<le> cidr" using c by simp
  have inc1: "1 \<le> inc" by (simp add: inc_def)
  have inc2: "inc \<le> 4294967296"
    unfolding inc_def using c0 by (intro pow2_le_2_32) simp
  have "(2::int) ^ nat (cidr - baseCidr) \<le> 2 ^ nat cidr"
    using c by (intro power_increasing) auto
  then have "j - i + 1 \<le> 2 ^ nat cidr" using ij by linarith
  then have "(j - i + 1) * inc \<le> 2 ^ nat cidr * inc"
    using inc1 by (intro mult_right_mono) auto
  then have d2: "d \<le> 4294967296 - inc"
    using pow2_split_32 [OF c0 c(3)] by (simp add: d_def inc_def algebra_simps)
  have "1 * inc \<le> (j - i) * inc"
    using ij(2) inc1 by (intro mult_right_mono) auto
  then have d1: "inc \<le> d" by (simp add: d_def)
  have bd: "b + d = table_baseNetworkLong ip baseCidr + j * inc"
    by (simp add: b_def d_def algebra_simps)
  have ni: "table_currentNet ip cidr baseCidr i = b mod 4294967296"
    by (simp add: table_currentNet_mod b_def inc_def)
  have nj: "table_currentNet ip cidr baseCidr j = (b + d) mod 4294967296"
    by (simp add: table_currentNet_mod bd inc_def)
  show False
    using rows_apart [OF inc1 inc2 d1 d2, of b x] ri rj
    unfolding table_currentBroadcast_mod ni nj inc_def by blast
qed

lemma row_index_bound:
  assumes "n < length (rows (generateSubnetTable ip cidr baseCidr limit))"
  shows "int n < 2 ^ nat (cidr - baseCidr)"
proof -
  from assms have "n < nat (min (2 ^ nat (cidr - baseCidr)) limit)"
    by (simp add: rows_length split: if_splits)
  then have "int n < min (2 ^ nat (cidr - baseCidr)) limit"
    by (simp only: zless_nat_eq_int_zless)
  then show ?thesis by simp
qed

lemma rows_share_no_address:
  assumes c: "0 \<le> baseCidr" "cidr \<le> 32"
    and m: "m < length (rows (generateSubnetTable ip cidr baseCidr limit))"
    and n: "n < length (rows (generateSubnetTable ip cidr baseCidr limit))"
    and mn: "m \<noteq> n"
    and xm: "ipToLong (row_networkAddress (rows (generateSubnetTable ip cidr baseCidr limit) ! m)) \<le> x"
      "x \<le> ipToLong (row_broadcastAddress (rows (generateSubnetTable ip cidr baseCidr limit) ! m))"
    and xn: "ipToLong (row_networkAddress (rows (generateSubnetTable ip cidr baseCidr limit) ! n)) \<le> x"
      "x \<le> ipToLong (row_broadcastAddress (rows (generateSubnetTable ip cidr baseCidr limit) ! n))"
  shows False
proof -
  from m have bc: "baseCidr \<le> cidr"
    by (auto simp: rows_length split: if_splits)
  note xm' = xm [unfolded rows_nth [OF m] ipToLong_row_addresses]
  note xn' = xn [unfolded rows_nth [OF n] ipToLong_row_addresses]
  show False
  proof (cases "m < n")
    case True
    then have "int m < int n" by simp
    then show False
      using table_rows_disjoint [OF c(1) bc c(2) _ _ row_index_bound [OF n] xm' xn'] by simp
  next
    case False
    with mn have "int n < int m" by simp
    then show False
      using table_rows_disjoint [OF c(1) bc c(2) _ _ row_index_bound [OF m] xn' xm'] by simp
  qed
qed

lemma row_isCurrent_iff:
  assumes "n < length (rows (generateSubnetTable ip cidr baseCidr limit))"
  shows "isCurrent (rows (generateSubnetTable ip cidr baseCidr limit) ! n) \<longleftrightarrow>
     ipToLong (row_networkAddress (rows (generateSubnetTable ip cidr baseCidr limit) ! n))
       \<le> ipToLong ip
     \<and> ipToLong ip
       \<le> ipToLong (row_broadcastAddress (rows (generateSubnetTable ip cidr baseCidr limit) ! n))"
  unfolding rows_nth [OF assms] ipToLong_row_addresses
  by (simp add: table_row_fields)

lemma filter_at_most_one:
  assumes "\<And>i j. i < length xs \<Longrightarrow> j < length xs \<Longrightarrow> P (xs ! i) \<Longrightarrow> P (xs ! j) \<Longrightarrow> i = j"
  shows "length (filter P xs) \<le> 1"
  using assms
proof (induction xs)
  case Nil
  then show ?case by simp
next
  case (Cons x xs)
  have ih: "length (filter P xs) \<le> 1"
  proof (rule Cons.IH)
    fix i j
    assume "i < length xs" "j < length xs" "P (xs ! i)" "P (xs ! j)"
    then have "Suc i = Suc j"
      by (intro Cons.prems) auto
    then show "i = j" by simp
  qed
  show ?case
  proof (cases "P x")
    case True
    have "filter P xs = []"
    proof (rule ccontr)
      assume "filter P xs \<noteq> []"
      then obtain y where "y \<in> set xs" "P y"
        by (auto simp: filter_empty_conv)
      then obtain k where "k < length xs" "xs ! k = y"
        by (auto simp: in_set_conv_nth)
      with True \<open>P y\<close> have "0 = Suc k"
        by (intro Cons.prems) auto
      then show False by simp
    qed
    with True show ?thesis by simp
  next
    case False
    with ih show ?thesis by simp
  qed
qed

text \<open>
  C10. For prefix lengths \<open>0 \<le> baseCidr\<close> and \<open>cidr \<le> 32\<close>, any string and any
  limit: at most one returned row is current; a row is current exactly when the input
  address lies between its network and its broadcast address; two returned rows share
  no address. A truncated result may have no current row: \<open>192.168.1.200\<close> with
  prefix 26 under base 24 and limit 2 returns the first two of four subnets, neither
  of which holds the address.
\<close>

theorem generateSubnetTable_at_most_one_current:
  assumes "0 \<le> baseCidr" and "cidr \<le> 32"
  shows "length (filter isCurrent (rows (generateSubnetTable ip cidr baseCidr limit))) \<le> 1
    \<and> (\<forall>m < length (rows (generateSubnetTable ip cidr baseCidr limit)).
        \<forall>n < length (rows (generateSubnetTable ip cidr baseCidr limit)).
          isCurrent (rows (generateSubnetTable ip cidr baseCidr limit) ! m)
          \<and> isCurrent (rows (generateSubnetTable ip cidr baseCidr limit) ! n) \<longrightarrow> m = n)
    \<and> (\<forall>n < length (rows (generateSubnetTable ip cidr baseCidr limit)).
          isCurrent (rows (generateSubnetTable ip cidr baseCidr limit) ! n) \<longleftrightarrow>
            ipToLong (row_networkAddress (rows (generateSubnetTable ip cidr baseCidr limit) ! n))
              \<le> ipToLong ip
            \<and> ipToLong ip \<le>
              ipToLong (row_broadcastAddress (rows (generateSubnetTable ip cidr baseCidr limit) ! n)))
    \<and> (\<forall>m < length (rows (generateSubnetTable ip cidr baseCidr limit)).
        \<forall>n < length (rows (generateSubnetTable ip cidr baseCidr limit)).
          m \<noteq> n \<longrightarrow>
            {ipToLong (row_networkAddress (rows (generateSubnetTable ip cidr baseCidr limit) ! m)) ..
             ipToLong (row_broadcastAddress (rows (generateSubnetTable ip cidr baseCidr limit) ! m))}
            \<inter>
            {ipToLong (row_networkAddress (rows (generateSubnetTable ip cidr baseCidr limit) ! n)) ..
             ipToLong (row_broadcastAddress (rows (generateSubnetTable ip cidr baseCidr limit) ! n))}
            = {})
    \<and> truncated (generateSubnetTable ''192.168.1.200'' 26 24 2)
    \<and> length (rows (generateSubnetTable ''192.168.1.200'' 26 24 2)) = 2
    \<and> filter isCurrent (rows (generateSubnetTable ''192.168.1.200'' 26 24 2)) = []"
proof -
  let ?rs = "rows (generateSubnetTable ip cidr baseCidr limit)"
  have one: "m = n"
    if "m < length ?rs" "n < length ?rs" "isCurrent (?rs ! m)" "isCurrent (?rs ! n)" for m n
  proof (rule ccontr)
    assume "m \<noteq> n"
    then show False
      using rows_share_no_address [OF assms that(1,2), of "ipToLong ip"]
        that(3,4) row_isCurrent_iff [OF that(1)] row_isCurrent_iff [OF that(2)]
      by blast
  qed
  have f: "length (filter isCurrent ?rs) \<le> 1"
    by (rule filter_at_most_one) (rule one)
  have disj: "{ipToLong (row_networkAddress (?rs ! m)) .. ipToLong (row_broadcastAddress (?rs ! m))}
      \<inter> {ipToLong (row_networkAddress (?rs ! n)) .. ipToLong (row_broadcastAddress (?rs ! n))} = {}"
    if "m < length ?rs" "n < length ?rs" "m \<noteq> n" for m n
  proof (rule ccontr)
    assume "\<not> ?thesis"
    then obtain x where
      "x \<in> {ipToLong (row_networkAddress (?rs ! m)) .. ipToLong (row_broadcastAddress (?rs ! m))}"
      "x \<in> {ipToLong (row_networkAddress (?rs ! n)) .. ipToLong (row_broadcastAddress (?rs ! n))}"
      by blast
    then show False
      using rows_share_no_address [OF assms that, of x] by simp
  qed
  have ex: "truncated (generateSubnetTable ''192.168.1.200'' 26 24 2)
    \<and> length (rows (generateSubnetTable ''192.168.1.200'' 26 24 2)) = 2
    \<and> filter isCurrent (rows (generateSubnetTable ''192.168.1.200'' 26 24 2)) = []"
    by code_simp
  show ?thesis
    using f one row_isCurrent_iff disj ex by blast
qed

theorem generateSubnetTable_at_most_one_current_witness:
  "length (rows (generateSubnetTable ''192.168.1.10'' 26 24 256)) = 4
   \<and> isCurrent (rows (generateSubnetTable ''192.168.1.10'' 26 24 256) ! 0)
   \<and> \<not> isCurrent (rows (generateSubnetTable ''192.168.1.10'' 26 24 256) ! 1)
   \<and> \<not> isCurrent (rows (generateSubnetTable ''192.168.1.10'' 26 24 256) ! 2)
   \<and> \<not> isCurrent (rows (generateSubnetTable ''192.168.1.10'' 26 24 256) ! 3)
   \<and> length (filter isCurrent (rows (generateSubnetTable ''192.168.1.10'' 26 24 256))) \<le> 1"
proof -
  have l: "length (rows (generateSubnetTable ''192.168.1.10'' 26 24 256)) = 4"
    by code_simp
  have c: "isCurrent (rows (generateSubnetTable ''192.168.1.10'' 26 24 256) ! 0)"
    by code_simp
  have b: "(0::int) \<le> 24" "(26::int) \<le> 32" by simp_all
  note t = generateSubnetTable_at_most_one_current [OF b, of "''192.168.1.10''" 256]
  from t have one: "\<forall>m < length (rows (generateSubnetTable ''192.168.1.10'' 26 24 256)).
        \<forall>n < length (rows (generateSubnetTable ''192.168.1.10'' 26 24 256)).
          isCurrent (rows (generateSubnetTable ''192.168.1.10'' 26 24 256) ! m)
          \<and> isCurrent (rows (generateSubnetTable ''192.168.1.10'' 26 24 256) ! n) \<longrightarrow> m = n"
    by blast
  have "\<not> isCurrent (rows (generateSubnetTable ''192.168.1.10'' 26 24 256) ! n)"
    if "n = 1 \<or> n = 2 \<or> n = 3" for n :: nat
    using one [rule_format, of n 0] c l that by auto
  then show ?thesis using l c t by auto
qed

section \<open>Enumeration under a base prefix from 1\<close>

lemma table_baseNetworkLong_closed:
  assumes "isValidIp ip" "1 \<le> baseCidr" "baseCidr \<le> 32"
  shows "table_baseNetworkLong ip baseCidr = spec_network (ipToLong ip) baseCidr"
proof -
  note r = isValidIp_ipToLong_range [OF assms(1)]
  have c: "0 \<le> baseCidr" using assms(2) by simp
  show ?thesis
    using r assms(2,3) c
    by (simp add: table_baseNetworkLong_def js_ushr_0 js_and_toUint32 code_network
        spec_network_closed)
qed

text \<open>
  Under a base prefix from 1 to 32 no row wraps: row \<open>i\<close> starts \<open>i\<close> increments above
  the base network and ends one increment later.
\<close>

lemma table_row_no_wrap:
  assumes v: "isValidIp ip" and c: "1 \<le> baseCidr" "baseCidr \<le> cidr" "cidr \<le> 32"
    and i: "0 \<le> i" "i < 2 ^ nat (cidr - baseCidr)"
  shows "table_currentNet ip cidr baseCidr i =
           spec_network (ipToLong ip) baseCidr + i * 2 ^ nat (32 - cidr)"
    and "table_currentBroadcast ip cidr baseCidr i =
           spec_network (ipToLong ip) baseCidr + i * 2 ^ nat (32 - cidr)
           + 2 ^ nat (32 - cidr) - 1"
    and "spec_network (ipToLong ip) baseCidr + i * 2 ^ nat (32 - cidr) + 2 ^ nat (32 - cidr)
           \<le> 4294967296"
    and "0 \<le> spec_network (ipToLong ip) baseCidr"
proof -
  define inc :: int where "inc = 2 ^ nat (32 - cidr)"
  define bn where "bn = spec_network (ipToLong ip) baseCidr"
  note r = isValidIp_ipToLong_range [OF v]
  have b32: "baseCidr \<le> 32" and b0: "0 \<le> baseCidr" using c by simp_all
  have bn: "bn = ipToLong ip - ipToLong ip mod 2 ^ nat (32 - baseCidr)"
    using r b0 b32 by (simp add: bn_def spec_network_closed)
  have k: "nat (32 - baseCidr) \<le> 32" using b0 by simp
  have bn0: "0 \<le> bn" and bn1: "bn + 2 ^ nat (32 - baseCidr) \<le> 4294967296"
    unfolding bn using network_bounds(1,2) [OF _ _ k, of "ipToLong ip"] r by simp_all
  have "nat (cidr - baseCidr) + nat (32 - cidr) = nat (32 - baseCidr)"
    using c by simp
  then have p: "(2::int) ^ nat (cidr - baseCidr) * inc = 2 ^ nat (32 - baseCidr)"
    unfolding inc_def by (simp only: power_add [symmetric])
  have inc1: "1 \<le> inc" by (simp add: inc_def)
  have "i + 1 \<le> 2 ^ nat (cidr - baseCidr)" using i(2) by simp
  then have "(i + 1) * inc \<le> 2 ^ nat (cidr - baseCidr) * inc"
    using inc1 by (intro mult_right_mono) auto
  then have le: "bn + i * inc + inc \<le> 4294967296"
    using bn1 p by (simp add: algebra_simps)
  have i0: "0 \<le> i * inc" using i(1) inc1 by simp
  have n: "table_currentNet ip cidr baseCidr i = bn + i * inc"
  proof -
    have "(bn + i * inc) mod 4294967296 = bn + i * inc"
      using bn0 i0 le inc1 by (intro mod_pos_pos_trivial) linarith+
    then show ?thesis
      by (simp add: table_currentNet_mod table_baseNetworkLong_closed [OF v c(1) b32]
          bn_def inc_def)
  qed
  have b: "table_currentBroadcast ip cidr baseCidr i = bn + i * inc + inc - 1"
  proof -
    have "(bn + i * inc + inc - 1) mod 4294967296 = bn + i * inc + inc - 1"
      using bn0 i0 le inc1 by (intro mod_pos_pos_trivial) linarith+
    then show ?thesis
      unfolding table_currentBroadcast_mod n by (simp add: inc_def)
  qed
  show "table_currentNet ip cidr baseCidr i =
           spec_network (ipToLong ip) baseCidr + i * 2 ^ nat (32 - cidr)"
    using n by (simp add: bn_def inc_def)
  show "table_currentBroadcast ip cidr baseCidr i =
           spec_network (ipToLong ip) baseCidr + i * 2 ^ nat (32 - cidr)
           + 2 ^ nat (32 - cidr) - 1"
    using b by (simp add: bn_def inc_def)
  show "spec_network (ipToLong ip) baseCidr + i * 2 ^ nat (32 - cidr) + 2 ^ nat (32 - cidr)
           \<le> 4294967296"
    using le by (simp add: bn_def inc_def)
  show "0 \<le> spec_network (ipToLong ip) baseCidr"
    using bn0 by (simp add: bn_def)
qed

text \<open>
  The enumeration of the specification holds under a base prefix from 1 to 32 and a
  limit that is not negative: the number of rows, the count and the flag, each row, and
  the ascending order of the network addresses.
\<close>

lemma generateSubnetTable_from_1:
  assumes v: "isValidIp ip" and c: "1 \<le> baseCidr" "baseCidr \<le> cidr" "cidr \<le> 32"
    and l: "0 \<le> limit"
  shows "int (length (rows (generateSubnetTable ip cidr baseCidr limit))) =
           min (2 ^ nat (cidr - baseCidr)) limit"
    and "totalCount (generateSubnetTable ip cidr baseCidr limit) = 2 ^ nat (cidr - baseCidr)"
    and "truncated (generateSubnetTable ip cidr baseCidr limit) \<longleftrightarrow>
           2 ^ nat (cidr - baseCidr) > limit"
    and "n < length (rows (generateSubnetTable ip cidr baseCidr limit)) \<Longrightarrow>
         rows (generateSubnetTable ip cidr baseCidr limit) ! n =
           \<lparr>row_index = int n + 1,
            row_networkAddress =
              longToIp (spec_network (ipToLong ip) baseCidr + int n * 2 ^ nat (32 - cidr)),
            row_range =
              (if cidr < 31
               then longToIp (spec_network (ipToLong ip) baseCidr
                              + int n * 2 ^ nat (32 - cidr) + 1)
                    @ '' - '' @
                    longToIp (spec_network (ipToLong ip) baseCidr
                              + int n * 2 ^ nat (32 - cidr) + 2 ^ nat (32 - cidr) - 1 - 1)
               else ''N/A''),
            row_broadcastAddress =
              longToIp (spec_network (ipToLong ip) baseCidr + int n * 2 ^ nat (32 - cidr)
                        + 2 ^ nat (32 - cidr) - 1),
            isCurrent =
              (spec_network (ipToLong ip) baseCidr + int n * 2 ^ nat (32 - cidr) \<le> ipToLong ip
               \<and> ipToLong ip \<le> spec_network (ipToLong ip) baseCidr
                     + int n * 2 ^ nat (32 - cidr) + 2 ^ nat (32 - cidr) - 1)\<rparr>"
    and "m < n \<Longrightarrow> n < length (rows (generateSubnetTable ip cidr baseCidr limit)) \<Longrightarrow>
         ipToLong (row_networkAddress (rows (generateSubnetTable ip cidr baseCidr limit) ! m))
         < ipToLong (row_networkAddress (rows (generateSubnetTable ip cidr baseCidr limit) ! n))"
proof -
  have p: "(0::int) < 2 ^ nat (cidr - baseCidr)" by simp
  show "int (length (rows (generateSubnetTable ip cidr baseCidr limit))) =
           min (2 ^ nat (cidr - baseCidr)) limit"
    using v c l p by (simp add: rows_length)
  show "totalCount (generateSubnetTable ip cidr baseCidr limit) = 2 ^ nat (cidr - baseCidr)"
    using v c by (simp add: generateSubnetTable_def Let_def js_pow2_def)
  show "truncated (generateSubnetTable ip cidr baseCidr limit) \<longleftrightarrow>
           2 ^ nat (cidr - baseCidr) > limit"
    using v c by (simp add: generateSubnetTable_def Let_def js_pow2_def)
next
  assume n: "n < length (rows (generateSubnetTable ip cidr baseCidr limit))"
  note w = table_row_no_wrap [OF v c _ row_index_bound [OF n]]
  show "rows (generateSubnetTable ip cidr baseCidr limit) ! n =
           \<lparr>row_index = int n + 1,
            row_networkAddress =
              longToIp (spec_network (ipToLong ip) baseCidr + int n * 2 ^ nat (32 - cidr)),
            row_range =
              (if cidr < 31
               then longToIp (spec_network (ipToLong ip) baseCidr
                              + int n * 2 ^ nat (32 - cidr) + 1)
                    @ '' - '' @
                    longToIp (spec_network (ipToLong ip) baseCidr
                              + int n * 2 ^ nat (32 - cidr) + 2 ^ nat (32 - cidr) - 1 - 1)
               else ''N/A''),
            row_broadcastAddress =
              longToIp (spec_network (ipToLong ip) baseCidr + int n * 2 ^ nat (32 - cidr)
                        + 2 ^ nat (32 - cidr) - 1),
            isCurrent =
              (spec_network (ipToLong ip) baseCidr + int n * 2 ^ nat (32 - cidr) \<le> ipToLong ip
               \<and> ipToLong ip \<le> spec_network (ipToLong ip) baseCidr
                     + int n * 2 ^ nat (32 - cidr) + 2 ^ nat (32 - cidr) - 1)\<rparr>"
    unfolding rows_nth [OF n]
    by (rule SubnetRow.equality) (simp_all add: table_row_fields w(1,2))
next
  assume mn: "m < n" and n: "n < length (rows (generateSubnetTable ip cidr baseCidr limit))"
  then have m: "m < length (rows (generateSubnetTable ip cidr baseCidr limit))" by simp
  note wn = table_row_no_wrap [OF v c _ row_index_bound [OF n]]
  note wm = table_row_no_wrap [OF v c _ row_index_bound [OF m]]
  have "int m * 2 ^ nat (32 - cidr) < int n * (2 ^ nat (32 - cidr) :: int)"
    using mn by simp
  then show "ipToLong (row_networkAddress (rows (generateSubnetTable ip cidr baseCidr limit) ! m))
         < ipToLong (row_networkAddress (rows (generateSubnetTable ip cidr baseCidr limit) ! n))"
    unfolding rows_nth [OF n] rows_nth [OF m] ipToLong_row_addresses
    by (simp add: wn(1) wm(1))
qed

section \<open>Enumeration\<close>

lemma table_cap_example:
  "length (rows (generateSubnetTable ''10.5.0.1'' 30 8 256)) = 256"
  "truncated (generateSubnetTable ''10.5.0.1'' 30 8 256)"
  "totalCount (generateSubnetTable ''10.5.0.1'' 30 8 256) = 4194304"
proof -
  have v: "isValidIp ''10.5.0.1''" by code_simp
  have c: "(1::int) \<le> 8" "(8::int) \<le> 30" "(30::int) \<le> 32" "(0::int) \<le> 256" by simp_all
  note t = generateSubnetTable_from_1 [OF v c]
  show "length (rows (generateSubnetTable ''10.5.0.1'' 30 8 256)) = 256"
    using t(1) by simp
  show "truncated (generateSubnetTable ''10.5.0.1'' 30 8 256)"
    using t(3) by simp
  show "totalCount (generateSubnetTable ''10.5.0.1'' 30 8 256) = 4194304"
    using t(2) by simp
qed

text \<open>
  C2. The specification asks, for every valid address and prefix lengths
  \<open>cidr \<ge> baseCidr\<close>, for \<open>min(totalCount, limit)\<close> rows in ascending order, row \<open>i\<close>
  from \<open>baseNetwork + i * increment\<close> to one increment later, with
  \<open>baseNetwork = a AND mask(baseCidr)\<close>. The code returns them under a base prefix
  from 1 on (\<open>generateSubnetTable_from_1\<close>): base 8, target 30 and limit 256 give 256
  rows of 4194304, truncated. The increment at prefix 0 is \<open>2^32\<close>, not 0. Under base
  prefix 0 the shift count 32 is taken modulo 32 and the base mask is all ones, so the
  base network is the address itself: \<open>192.168.1.10\<close> with target 0 gives the one row
  from \<open>192.168.1.10\<close> to \<open>192.168.1.9\<close>, not current, where the specification has
  \<open>0.0.0.0\<close> to \<open>255.255.255.255\<close>; with target 1 the second row starts below the
  first.
\<close>

theorem generateSubnetTable_base_prefix_0:
  "isValidIp ''192.168.1.10''
   \<and> generateSubnetTable ''192.168.1.10'' 0 0 256 =
       \<lparr>rows = [\<lparr>row_index = 1, row_networkAddress = ''192.168.1.10'',
                  row_range = ''192.168.1.11 - 192.168.1.8'',
                  row_broadcastAddress = ''192.168.1.9'', isCurrent = False\<rparr>],
        totalCount = 1, truncated = False\<rparr>
   \<and> table_increment 0 = 4294967296
   \<and> longToIp (spec_network (ipToLong ''192.168.1.10'') 0) = ''0.0.0.0''
   \<and> longToIp (spec_network (ipToLong ''192.168.1.10'') 0 + table_increment 0 - 1) =
       ''255.255.255.255''
   \<and> map row_networkAddress (rows (generateSubnetTable ''192.168.1.10'' 1 0 256)) =
       [''192.168.1.10'', ''64.168.1.10'']
   \<and> length (rows (generateSubnetTable ''10.5.0.1'' 30 8 256)) = 256
   \<and> truncated (generateSubnetTable ''10.5.0.1'' 30 8 256)
   \<and> totalCount (generateSubnetTable ''10.5.0.1'' 30 8 256) = 4194304"
proof -
  have v: "isValidIp ''192.168.1.10''" by code_simp
  have t: "generateSubnetTable ''192.168.1.10'' 0 0 256 =
       \<lparr>rows = [\<lparr>row_index = 1, row_networkAddress = ''192.168.1.10'',
                  row_range = ''192.168.1.11 - 192.168.1.8'',
                  row_broadcastAddress = ''192.168.1.9'', isCurrent = False\<rparr>],
        totalCount = 1, truncated = False\<rparr>"
    by code_simp
  have i: "table_increment 0 = 4294967296"
    by (simp add: table_increment_def js_pow2_def)
  have z: "longToIp 0 = ''0.0.0.0''" by code_simp
  have o: "longToIp 4294967295 = ''255.255.255.255''" by code_simp
  have u: "map row_networkAddress (rows (generateSubnetTable ''192.168.1.10'' 1 0 256)) =
       [''192.168.1.10'', ''64.168.1.10'']"
    by code_simp
  show ?thesis
    using v t u table_cap_example by (simp add: i spec_at_prefix_0 z o)
qed

theorem generateSubnetTable_base_prefix_0_witness:
  "length (rows (generateSubnetTable ''192.168.1.10'' 0 0 256)) = 1
   \<and> \<not> isCurrent (hd (rows (generateSubnetTable ''192.168.1.10'' 0 0 256)))
   \<and> row_broadcastAddress (hd (rows (generateSubnetTable ''192.168.1.10'' 0 0 256))) =
       ''192.168.1.9''"
  using generateSubnetTable_base_prefix_0 by simp

end
